theory Spec2Isabelle
  imports Main "HOL-Library.AList"
begin

section \<open>The dependency container of \<open>src/Tree.ts\<close>\<close>

text \<open>
  \<open>Tree\<close> keeps two plain JavaScript objects, \<open>_registry\<close> and \<open>_resolved\<close>, both
  created by the literal \<open>{}\<close>. The embedding below follows the class method by method.

  \<^item> Keys are strings. The bulk form of \<open>register\<close> (an object as key) is outside the
    model.
  \<^item> A JavaScript value is a \<open>val\<close>. An object is a reference, so that identity
    (\<open>===\<close>) of instances is equality of references: \<open>Ref n\<close> is the \<open>n\<close>-th object
    the tree has allocated (the construction contexts), \<open>Ext n\<close> an object that comes
    from outside, \<open>Fn n\<close> a function.
  \<^item> A callable is a \<open>js_function\<close>: the text of its parameter list (what
    \<open>_findDependencies\<close> reads from \<open>fn.toString()\<close>), whether an object created from
    its prototype and run through its body answers \<open>emit\<close> and
    \<open>removeAllListeners\<close>, and its body, a function of the \<open>this\<close> reference and
    the arguments that yields the returned value (\<open>Undefined\<close> when it returns nothing).
    Factories are taken to terminate, not to throw and not to call back into the tree.
  \<^item> Every error of the source is \<open>new Error(msg)\<close>; the run-time's own
    \<open>TypeError\<close> (calling or reading through something that is not there) is a
    separate constructor.
  \<^item> \<open>_log\<close> only formats a message and drops it; it is left out.
  \<^item> The fields \<open>nextRef\<close> and \<open>trace\<close> are not in the source: the first numbers the
    objects allocated so far, the second records factory invocations, \<open>destroy\<close> events
    and cache removals in the order they happen.
\<close>

subsection \<open>Values, functions, records\<close>

type_synonym key = string

datatype val = Undefined | Null | Bool bool | Num int | Str string
  | Ref nat | Ext nat | Fn nat

record js_function =
  ident :: nat
  argDecl :: string
  protoEmit :: bool
  protoRemoveAllListeners :: bool
  body :: "nat \<Rightarrow> val list \<Rightarrow> val"

datatype payload = Plain val | Callable js_function

record registration =
  dependencies :: "key list"
  isConstant :: bool
  isSingleton :: bool
  rvalue :: payload

record ctx_object =
  cref :: nat
  hasEmit :: bool
  hasRemoveAllListeners :: bool

record entry =
  ctx :: ctx_object
  cvalue :: val

datatype event = Invoke key nat "val list" | Emit key | Evict key

datatype error = Error string | TypeError

record tree =
  registry :: "(key \<times> registration) list"
  resolved :: "(key \<times> entry) list"
  nextRef :: nat
  trace :: "event list"

definition newTree :: tree where
  "newTree = \<lparr>registry = [], resolved = [], nextRef = 0, trace = []\<rparr>"

subsection \<open>Property access on a plain object\<close>

text \<open>
  \<open>obj[key]\<close> on an object made by \<open>{}\<close> finds the object's own property, or else the
  property of that name on \<open>Object.prototype\<close>, or else \<open>undefined\<close>. The inherited
  properties are all truthy (functions, and the prototype object itself for
  \<open>__proto__\<close>). \<open>obj.hasOwnProperty(key)\<close> sees own properties only.
\<close>

datatype 'a property = Missing | Inherited | Own 'a

definition objectPrototypeKeys :: "key list" where
  "objectPrototypeKeys =
     [''constructor'', ''toString'', ''toLocaleString'', ''valueOf'', ''hasOwnProperty'',
      ''isPrototypeOf'', ''propertyIsEnumerable'', ''__proto__'', ''__defineGetter__'',
      ''__defineSetter__'', ''__lookupGetter__'', ''__lookupSetter__'']"

definition getProp :: "(key \<times> 'a) list \<Rightarrow> key \<Rightarrow> 'a property" where
  "getProp obj k =
     (case map_of obj k of
        Some v \<Rightarrow> Own v
      | None \<Rightarrow> if k \<in> set objectPrototypeKeys then Inherited else Missing)"

definition hasOwnProperty :: "(key \<times> 'a) list \<Rightarrow> key \<Rightarrow> bool" where
  "hasOwnProperty obj k = (map_of obj k \<noteq> None)"

text \<open>
  \<open>Object.keys\<close> lists the own keys: those that are array indices first, in ascending
  numeric order, then the others in the order they were created.
\<close>

definition isDigit :: "char \<Rightarrow> bool" where
  "isDigit c = (48 \<le> (of_char c :: nat) \<and> (of_char c :: nat) \<le> 57)"

definition decimal :: "string \<Rightarrow> int" where
  "decimal s = foldl (\<lambda>n c. 10 * n + (of_char c - 48)) 0 s"

definition isArrayIndex :: "key \<Rightarrow> bool" where
  "isArrayIndex k =
     (k \<noteq> [] \<and> list_all isDigit k \<and> (k = ''0'' \<or> hd k \<noteq> CHR ''0'')
      \<and> length k \<le> 10 \<and> decimal k < 4294967295)"

definition objectKeys :: "(key \<times> 'a) list \<Rightarrow> key list" where
  "objectKeys obj =
     sort_key decimal (filter isArrayIndex (map fst obj))
     @ filter (\<lambda>k. \<not> isArrayIndex k) (map fst obj)"

subsection \<open>Helpers of the module\<close>

text \<open>\<open>buildPathErrorMsg\<close>: the message, a line break and four blanks, then the path
  joined by arrows.\<close>

fun joinPath :: "key list \<Rightarrow> string" where
  "joinPath [] = []"
| "joinPath [k] = k"
| "joinPath (k # ks) = k @ '' -> '' @ joinPath ks"

definition buildPathErrorMsg :: "string \<Rightarrow> key list \<Rightarrow> string" where
  "buildPathErrorMsg msg path = msg @ [CHR 0x0A] @ ''    '' @ joinPath path"

definition unregisteredDependency :: "key \<Rightarrow> key list \<Rightarrow> error" where
  "unregisteredDependency k p =
     Error (buildPathErrorMsg
       (''Detected unregistered dependency '' @ [CHR 0x60] @ k @ [CHR 0x60]) p)"

definition circularDependency :: "key list \<Rightarrow> error" where
  "circularDependency p =
     Error (buildPathErrorMsg
       ''Circular dependency detected! Please check the following dependencies to correct the problem''
       p)"

definition notAFactory :: "key \<Rightarrow> error" where
  "notAFactory k = Error (''Cannot register non-function as factory: '' @ k)"

definition invalidOptions :: error where
  "invalidOptions = Error ''Registration options must be a plain object''"

text \<open>\<open>countBy(p)[key]\<close>: how often \<open>key\<close> occurs in the path.\<close>

definition countBy :: "key list \<Rightarrow> key \<Rightarrow> nat" where
  "countBy p k = count_list p k"

text \<open>\<open>contains(collection, target)\<close> on an array.\<close>

definition contains :: "key list \<Rightarrow> key \<Rightarrow> bool" where
  "contains collection target = (target \<in> set collection)"

text \<open>
  \<open>_findDependencies\<close>: the parameter text (the group captured by \<open>ARROW_ARG\<close> or
  \<open>FN_ARGS\<close> after comments are stripped, here the field \<open>argDecl\<close>) is split at
  commas, each piece trimmed, empty pieces dropped. A \<open>char\<close> stands for a code unit
  below 256; of the blanks and line ends that \<open>trim\<close> strips these are the tab, the
  line feed, the vertical tab, the form feed, the carriage return, the space and the
  no-break space. Text with code units from 256 on is outside the model.
\<close>

fun splitAt :: "char \<Rightarrow> string \<Rightarrow> string \<Rightarrow> string list" where
  "splitAt c acc [] = [rev acc]"
| "splitAt c acc (x # xs) =
     (if x = c then rev acc # splitAt c [] xs else splitAt c (x # acc) xs)"

definition isSpace :: "char \<Rightarrow> bool" where
  "isSpace c = (c \<in> set [CHR 0x20, CHR 0x09, CHR 0x0A, CHR 0x0B, CHR 0x0C, CHR 0x0D, CHR 0xA0])"

definition trim :: "string \<Rightarrow> string" where
  "trim s = rev (dropWhile isSpace (rev (dropWhile isSpace s)))"

definition findDependencies :: "js_function \<Rightarrow> key list" where
  "findDependencies f =
     filter (\<lambda>d. d \<noteq> []) (map trim (splitAt CHR '','' [] (argDecl f)))"

subsection \<open>\<open>_resolve\<close>\<close>

text \<open>
  \<open>_resolve(key, path)\<close> reads \<open>this._registry\<close> and never writes it, so the registry
  is a parameter of its own here. The \<open>forEach\<close> over the dependencies is
  \<open>resolveEach\<close>; a throw inside it ends the whole call, with the state as it is at
  that moment. The throw-away \<open>context = {}\<close> of a call that does not store it is not
  counted as an allocation.
\<close>

definition invokeFactory :: "key \<Rightarrow> js_function \<Rightarrow> val list \<Rightarrow> tree \<Rightarrow> (ctx_object \<times> val) \<times> tree" where
  "invokeFactory k f args s =
     (let r = nextRef s;
          c = \<lparr>cref = r, hasEmit = protoEmit f,
               hasRemoveAllListeners = protoRemoveAllListeners f\<rparr>;
          ret = body f r args;
          s' = s\<lparr>nextRef := Suc r, trace := trace s @ [Invoke k r args]\<rparr>
      in ((c, if ret = Undefined then Ref r else ret), s'))"

definition plainContext :: "tree \<Rightarrow> ctx_object \<times> tree" where
  "plainContext s =
     (\<lparr>cref = nextRef s, hasEmit = False, hasRemoveAllListeners = False\<rparr>,
      s\<lparr>nextRef := Suc (nextRef s)\<rparr>)"

definition payloadValue :: "payload \<Rightarrow> val" where
  "payloadValue p = (case p of Plain v \<Rightarrow> v | Callable f \<Rightarrow> Fn (ident f))"

definition finish :: "key \<Rightarrow> bool \<Rightarrow> ctx_object \<Rightarrow> val \<Rightarrow> tree \<Rightarrow> (error + val) \<times> tree" where
  "finish k single c v s =
     (if \<not> single then (Inr v, s)
      else (Inr v, s\<lparr>resolved := AList.update k \<lparr>ctx = c, cvalue = v\<rparr> (resolved s)\<rparr>))"

function (sequential)
  priv_resolve :: "(key \<times> registration) list \<Rightarrow> key \<Rightarrow> key list \<Rightarrow> tree \<Rightarrow> (error + val) \<times> tree"
  and resolveEach :: "(key \<times> registration) list \<Rightarrow> key list \<Rightarrow> key list \<Rightarrow> val list \<Rightarrow> tree
                      \<Rightarrow> (error + val list) \<times> tree"
where
  "priv_resolve reg k path s =
     (let p = path @ [k] in
      case getProp reg k of
        Missing \<Rightarrow> (Inl (unregisteredDependency k p), s)
      | Inherited \<Rightarrow>
          if countBy p k > 1 then (Inl (circularDependency p), s)
          else (case map_of (resolved s) k of
                  Some e \<Rightarrow> (Inr (cvalue e), s)
                | None \<Rightarrow> (Inl TypeError, s))
      | Own config \<Rightarrow>
          if countBy p k > 1 then (Inl (circularDependency p), s)
          else (case map_of (resolved s) k of
                  Some e \<Rightarrow> (Inr (cvalue e), s)
                | None \<Rightarrow>
                    if isConstant config then
                      (if \<not> isSingleton config then (Inr (payloadValue (rvalue config)), s)
                       else (case plainContext s of
                               (c, s1) \<Rightarrow> finish k True c (payloadValue (rvalue config)) s1))
                    else
                      (case resolveEach reg p (dependencies config) [] s of
                         (Inl err, s1) \<Rightarrow> (Inl err, s1)
                       | (Inr resolvedDeps, s1) \<Rightarrow>
                           (case rvalue config of
                              Plain v \<Rightarrow> (Inl TypeError, s1)
                            | Callable f \<Rightarrow>
                                (case invokeFactory k f resolvedDeps s1 of
                                   ((c, v), s2) \<Rightarrow> finish k (isSingleton config) c v s2)))))"
| "resolveEach reg p [] acc s = (Inr acc, s)"
| "resolveEach reg p (d # ds) acc s =
     (case priv_resolve reg d p s of
        (Inl err, s1) \<Rightarrow> (Inl err, s1)
      | (Inr v, s1) \<Rightarrow> resolveEach reg p ds (acc @ [v]) s1)"
  by pat_completeness auto

subsection \<open>\<open>_destroy\<close>\<close>

text \<open>
  \<open>_destroy(key)\<close> reads \<open>this._resolved[key]\<close> through the prototype chain and tests
  it for truthiness; a cache entry is an object, hence truthy, and so is every inherited
  property. The dependents are the registry keys, in \<open>Object.keys\<close> order, whose record
  lists \<open>key\<close>, with the falsy names (the empty string) filtered out. Each is destroyed
  first. Then \<open>context.emit\<close> and \<open>context.removeAllListeners\<close> are called on the
  stored context, which throws a \<open>TypeError\<close> when the context has no such method (or
  when there is no context at all, for an inherited property), and the entry is deleted.

  The recursion follows the dependents and need not end, so it carries fuel: \<open>None\<close>
  means that the call did not return within that many nested calls.
\<close>

definition dependsOnKey :: "(key \<times> registration) list \<Rightarrow> key \<Rightarrow> key list" where
  "dependsOnKey reg k =
     filter (\<lambda>depName. depName \<noteq> [])
       (filter (\<lambda>depName. case map_of reg depName of
                              Some config \<Rightarrow> contains (dependencies config) k
                            | None \<Rightarrow> False)
          (objectKeys reg))"

fun priv_destroy :: "nat \<Rightarrow> key \<Rightarrow> tree \<Rightarrow> ((error + unit) \<times> tree) option"
  and destroyEach :: "nat \<Rightarrow> key list \<Rightarrow> tree \<Rightarrow> ((error + unit) \<times> tree) option"
where
  "priv_destroy 0 k t = None"
| "priv_destroy (Suc n) k t =
     (case getProp (resolved t) k of
        Missing \<Rightarrow> Some (Inr (), t)
      | Inherited \<Rightarrow>
          (case destroyEach n (dependsOnKey (registry t) k) t of
             None \<Rightarrow> None
           | Some (Inl err, t1) \<Rightarrow> Some (Inl err, t1)
           | Some (Inr u, t1) \<Rightarrow> Some (Inl TypeError, t1))
      | Own r \<Rightarrow>
          (case destroyEach n (dependsOnKey (registry t) k) t of
             None \<Rightarrow> None
           | Some (Inl err, t1) \<Rightarrow> Some (Inl err, t1)
           | Some (Inr u, t1) \<Rightarrow>
               if \<not> hasEmit (ctx r) then Some (Inl TypeError, t1)
               else if \<not> hasRemoveAllListeners (ctx r)
                 then Some (Inl TypeError, t1\<lparr>trace := trace t1 @ [Emit k]\<rparr>)
               else Some (Inr (),
                      t1\<lparr>resolved := AList.delete k (resolved t1),
                         trace := trace t1 @ [Emit k, Evict k]\<rparr>)))"
| "destroyEach n [] t = Some (Inr (), t)"
| "destroyEach n (d # ds) t =
     (case priv_destroy n d t of
        None \<Rightarrow> None
      | Some (Inl err, t1) \<Rightarrow> Some (Inl err, t1)
      | Some (Inr u, t1) \<Rightarrow> destroyEach n ds t1)"

subsection \<open>The public methods\<close>

text \<open>\<open>isRegistered(key)\<close> is \<open>!!this._registry[key]\<close>; a record is an object, hence
  truthy.\<close>

definition isRegistered :: "tree \<Rightarrow> key \<Rightarrow> bool" where
  "isRegistered t k = (case getProp (registry t) k of Missing \<Rightarrow> False | _ \<Rightarrow> True)"

text \<open>\<open>resolve(key)\<close> with a key, and \<open>resolve()\<close> without one.\<close>

definition resolve :: "tree \<Rightarrow> key \<Rightarrow> (error + val) \<times> tree" where
  "resolve t k = priv_resolve (registry t) k [] t"

fun resolveKeys :: "(key \<times> registration) list \<Rightarrow> key list \<Rightarrow> (key \<times> val) list \<Rightarrow> tree
                    \<Rightarrow> (error + (key \<times> val) list) \<times> tree" where
  "resolveKeys reg [] obj s = (Inr obj, s)"
| "resolveKeys reg (k # ks) obj s =
     (case priv_resolve reg k [] s of
        (Inl err, s1) \<Rightarrow> (Inl err, s1)
      | (Inr v, s1) \<Rightarrow> resolveKeys reg ks (AList.update k v obj) s1)"

definition resolveAll :: "tree \<Rightarrow> (error + (key \<times> val) list) \<times> tree" where
  "resolveAll t = resolveKeys (registry t) (objectKeys (registry t)) [] t"

text \<open>\<open>destroy(key)\<close>: the test is \<open>if (key)\<close>, so a missing key (\<open>None\<close>) and the
  empty string both take the branch that destroys every registered key.\<close>

definition destroy :: "nat \<Rightarrow> tree \<Rightarrow> key option \<Rightarrow> ((error + unit) \<times> tree) option" where
  "destroy n t key =
     (case key of
        Some k \<Rightarrow> if k \<noteq> [] then priv_destroy n k t
                  else destroyEach n (objectKeys (registry t)) t
      | None \<Rightarrow> destroyEach n (objectKeys (registry t)) t)"

subsection \<open>\<open>register\<close>, \<open>constant\<close>, \<open>singleton\<close>\<close>

text \<open>
  The options argument is missing, a plain object, or some other value. \<open>opts || {}\<close>
  replaces a falsy one by the empty object; anything that is then not a plain object is
  refused. \<open>aggregateOn\<close> is a key or an array of keys.

  When \<open>aggregateOn\<close> is truthy it is made an array and the source runs
  \<open>aggregateOn.forEach(aggregateOn, aggregateKey => ...)\<close>: the first argument of
  \<open>forEach\<close>, its callback, is the array itself, which is not callable, so the call
  throws a \<open>TypeError\<close> before the arrow function (given as \<open>thisArg\<close>) is ever run.
  At that point the record of \<open>key\<close> is already in the registry.
\<close>

datatype aggregate = AggUndefined | AggKey key | AggKeys "key list"

record reg_options =
  optAggregateOn :: aggregate
  optConstant :: bool
  optSingleton :: bool

datatype opts_arg = NoOpts | PlainOpts reg_options | NotPlain val

definition emptyOptions :: reg_options where
  "emptyOptions = \<lparr>optAggregateOn = AggUndefined, optConstant = False, optSingleton = False\<rparr>"

fun truthy :: "val \<Rightarrow> bool" where
  "truthy Undefined = False"
| "truthy Null = False"
| "truthy (Bool b) = b"
| "truthy (Num i) = (i \<noteq> 0)"
| "truthy (Str s) = (s \<noteq> [])"
| "truthy (Ref r) = True"
| "truthy (Ext r) = True"
| "truthy (Fn r) = True"

fun truthyAggregate :: "aggregate \<Rightarrow> bool" where
  "truthyAggregate AggUndefined = False"
| "truthyAggregate (AggKey k) = (k \<noteq> [])"
| "truthyAggregate (AggKeys ks) = True"

definition normalizeOptions :: "opts_arg \<Rightarrow> error + reg_options" where
  "normalizeOptions a =
     (case a of
        NoOpts \<Rightarrow> Inr emptyOptions
      | PlainOpts opts \<Rightarrow> Inr opts
      | NotPlain v \<Rightarrow> if truthy v then Inl invalidOptions else Inr emptyOptions)"

definition register :: "nat \<Rightarrow> tree \<Rightarrow> key \<Rightarrow> payload \<Rightarrow> opts_arg
                        \<Rightarrow> ((error + unit) \<times> tree) option" where
  "register n t k v a =
     (case normalizeOptions a of
        Inl err \<Rightarrow> Some (Inl err, t)
      | Inr opts \<Rightarrow>
          (case (if isRegistered t k then destroy n t (Some k) else Some (Inr (), t)) of
             None \<Rightarrow> None
           | Some (Inl err, t1) \<Rightarrow> Some (Inl err, t1)
           | Some (Inr u, t1) \<Rightarrow>
               (case (if \<not> optConstant opts
                      then (case v of
                              Plain x \<Rightarrow> Inl (notAFactory k)
                            | Callable f \<Rightarrow> Inr (findDependencies f))
                      else Inr []) of
                  Inl err \<Rightarrow> Some (Inl err, t1)
                | Inr deps \<Rightarrow>
                    (let t2 = t1\<lparr>registry :=
                                AList.update k
                                  \<lparr>dependencies = deps, isConstant = optConstant opts,
                                   isSingleton = optSingleton opts, rvalue = v\<rparr>
                                  (registry t1)\<rparr>
                     in if truthyAggregate (optAggregateOn opts)
                        then Some (Inl TypeError, t2)
                        else Some (Inr (), t2)))))"

text \<open>\<open>clone(opts)\<close> copies the own properties of a truthy argument into a fresh plain
  object; of the options only those of a plain object matter.\<close>

definition clone :: "opts_arg \<Rightarrow> reg_options" where
  "clone a = (case a of PlainOpts opts \<Rightarrow> opts | _ \<Rightarrow> emptyOptions)"

definition constant_reg :: "nat \<Rightarrow> tree \<Rightarrow> key \<Rightarrow> payload \<Rightarrow> opts_arg
                            \<Rightarrow> ((error + unit) \<times> tree) option" where
  "constant_reg n t k v a = register n t k v (PlainOpts ((clone a)\<lparr>optConstant := True\<rparr>))"

definition singleton_reg :: "nat \<Rightarrow> tree \<Rightarrow> key \<Rightarrow> payload \<Rightarrow> opts_arg
                             \<Rightarrow> ((error + unit) \<times> tree) option" where
  "singleton_reg n t k v a = register n t k v (PlainOpts ((clone a)\<lparr>optSingleton := True\<rparr>))"

subsection \<open>Example factories and containers\<close>

text \<open>
  The classes of the repository's test: \<open>TestPlugin\<close>, whose constructor takes
  \<open>errorParser\<close> and whose prototype has \<open>getErrorParser\<close> only, and
  \<open>DefaultErrorParser\<close>, which the test imports and resolves with nothing else
  registered; it is taken as a class without constructor parameters and without
  \<open>emit\<close>. \<open>testTree\<close> is the tree the test builds by
  \<open>register('errorPlugin', TestPlugin)\<close> and
  \<open>singleton('errorParser', DefaultErrorParser)\<close>, followed by the states after one and
  after two \<open>resolve('errorPlugin')\<close>.
  \<open>Echo\<close> is \<open>function (B) { return B; }\<close>; \<open>NeedsA\<close> and \<open>NeedsB\<close> are
  constructors with the one parameter their name says.
\<close>

definition TestPlugin :: js_function where
  "TestPlugin = \<lparr>ident = 0, argDecl = ''errorParser'', protoEmit = False,
     protoRemoveAllListeners = False, body = (\<lambda>this args. Undefined)\<rparr>"

definition DefaultErrorParser :: js_function where
  "DefaultErrorParser = \<lparr>ident = 1, argDecl = [], protoEmit = False,
     protoRemoveAllListeners = False, body = (\<lambda>this args. Undefined)\<rparr>"

definition testTree :: tree where
  "testTree = \<lparr>registry =
       [(''errorPlugin'', \<lparr>dependencies = [''errorParser''], isConstant = False,
           isSingleton = False, rvalue = Callable TestPlugin\<rparr>),
        (''errorParser'', \<lparr>dependencies = [], isConstant = False,
           isSingleton = True, rvalue = Callable DefaultErrorParser\<rparr>)],
     resolved = [], nextRef = 0, trace = []\<rparr>"

definition testTree1 :: tree where
  "testTree1 = testTree\<lparr>resolved :=
       [(''errorParser'', \<lparr>ctx = \<lparr>cref = 0, hasEmit = False, hasRemoveAllListeners = False\<rparr>,
           cvalue = Ref 0\<rparr>)],
     nextRef := 2,
     trace := [Invoke ''errorParser'' 0 [], Invoke ''errorPlugin'' 1 [Ref 0]]\<rparr>"

definition testTree2 :: tree where
  "testTree2 = testTree1\<lparr>nextRef := 3,
     trace := [Invoke ''errorParser'' 0 [], Invoke ''errorPlugin'' 1 [Ref 0],
               Invoke ''errorPlugin'' 2 [Ref 0]]\<rparr>"

definition Echo :: js_function where
  "Echo = \<lparr>ident = 2, argDecl = ''B'', protoEmit = False, protoRemoveAllListeners = False,
     body = (\<lambda>this args. case args of [] \<Rightarrow> Undefined | x # xs \<Rightarrow> x)\<rparr>"

definition echoTree :: tree where
  "echoTree = \<lparr>registry =
       [(''A'', \<lparr>dependencies = [''B''], isConstant = False, isSingleton = False,
           rvalue = Callable Echo\<rparr>),
        (''B'', \<lparr>dependencies = [], isConstant = False, isSingleton = True,
           rvalue = Callable DefaultErrorParser\<rparr>)],
     resolved = [], nextRef = 0, trace = []\<rparr>"

definition NeedsA :: js_function where
  "NeedsA = \<lparr>ident = 3, argDecl = ''A'', protoEmit = False, protoRemoveAllListeners = False,
     body = (\<lambda>this args. Undefined)\<rparr>"

definition NeedsB :: js_function where
  "NeedsB = \<lparr>ident = 4, argDecl = ''B'', protoEmit = False, protoRemoveAllListeners = False,
     body = (\<lambda>this args. Undefined)\<rparr>"

definition factoryRecord :: "js_function \<Rightarrow> bool \<Rightarrow> registration" where
  "factoryRecord f single =
     \<lparr>dependencies = findDependencies f, isConstant = False, isSingleton = single,
      rvalue = Callable f\<rparr>"


text \<open>
  \<open>Service\<close> and \<open>Client\<close> are classes whose prototype has \<open>emit\<close> and
  \<open>removeAllListeners\<close> (event emitters); \<open>Client\<close> takes \<open>service\<close>.
  \<open>serviceTree\<close> is the tree after \<open>singleton('service', Service)\<close>,
  \<open>singleton('client', Client)\<close> and \<open>resolve('client')\<close>; \<open>serviceCleared\<close> is what
  tearing both down leaves. \<open>pluginTree\<close> is the same with the two classes of the
  test. \<open>soloTree\<close> is the tree after \<open>constant('errorParser', 0)\<close>,
  \<open>singleton('errorPlugin', TestPlugin)\<close> and \<open>resolve('errorPlugin')\<close>.
  \<open>blankTree\<close> and \<open>blankServiceTree\<close> add a constant registered under the empty
  string to \<open>soloTree\<close> and to \<open>serviceTree\<close>.
\<close>

definition Service :: js_function where
  "Service = \<lparr>ident = 5, argDecl = [], protoEmit = True, protoRemoveAllListeners = True,
     body = (\<lambda>this args. Undefined)\<rparr>"

definition Client :: js_function where
  "Client = \<lparr>ident = 6, argDecl = ''service'', protoEmit = True,
     protoRemoveAllListeners = True, body = (\<lambda>this args. Undefined)\<rparr>"

definition serviceTree :: tree where
  "serviceTree = \<lparr>registry =
       [(''service'', factoryRecord Service True), (''client'', factoryRecord Client True)],
     resolved =
       [(''service'', \<lparr>ctx = \<lparr>cref = 0, hasEmit = True, hasRemoveAllListeners = True\<rparr>,
           cvalue = Ref 0\<rparr>),
        (''client'', \<lparr>ctx = \<lparr>cref = 1, hasEmit = True, hasRemoveAllListeners = True\<rparr>,
           cvalue = Ref 1\<rparr>)],
     nextRef = 2,
     trace = [Invoke ''service'' 0 [], Invoke ''client'' 1 [Ref 0]]\<rparr>"

definition serviceCleared :: tree where
  "serviceCleared = serviceTree\<lparr>resolved := [],
     trace := trace serviceTree
       @ [Emit ''client'', Evict ''client'', Emit ''service'', Evict ''service'']\<rparr>"

definition serviceRank :: "key \<Rightarrow> nat" where
  "serviceRank k = (if k = ''service'' then 1 else 0)"

definition pluginTree :: tree where
  "pluginTree = \<lparr>registry =
       [(''errorPlugin'', factoryRecord TestPlugin True),
        (''errorParser'', factoryRecord DefaultErrorParser True)],
     resolved =
       [(''errorParser'', \<lparr>ctx = \<lparr>cref = 0, hasEmit = False, hasRemoveAllListeners = False\<rparr>,
           cvalue = Ref 0\<rparr>),
        (''errorPlugin'', \<lparr>ctx = \<lparr>cref = 1, hasEmit = False, hasRemoveAllListeners = False\<rparr>,
           cvalue = Ref 1\<rparr>)],
     nextRef = 2,
     trace = [Invoke ''errorParser'' 0 [], Invoke ''errorPlugin'' 1 [Ref 0]]\<rparr>"

definition constantRecord :: "val \<Rightarrow> bool \<Rightarrow> registration" where
  "constantRecord v single =
     \<lparr>dependencies = [], isConstant = True, isSingleton = single, rvalue = Plain v\<rparr>"

definition soloTree :: tree where
  "soloTree = \<lparr>registry =
       [(''errorParser'', constantRecord (Num 0) False),
        (''errorPlugin'', factoryRecord TestPlugin True)],
     resolved =
       [(''errorPlugin'', \<lparr>ctx = \<lparr>cref = 0, hasEmit = False, hasRemoveAllListeners = False\<rparr>,
           cvalue = Ref 0\<rparr>)],
     nextRef = 1,
     trace = [Invoke ''errorPlugin'' 0 [Num 0]]\<rparr>"

definition blankTree :: tree where
  "blankTree = soloTree\<lparr>registry := registry soloTree @ [([], constantRecord (Num 0) False)]\<rparr>"

definition blankServiceTree :: tree where
  "blankServiceTree =
     serviceTree\<lparr>registry := registry serviceTree @ [([], constantRecord (Num 0) False)]\<rparr>"







text \<open>
  \<open>mixedTree\<close> is the tree after \<open>singleton('service', Service)\<close>,
  \<open>singleton('client', Client)\<close>, \<open>constant('errorParser', 0)\<close>,
  \<open>singleton('errorPlugin', TestPlugin)\<close>, \<open>resolve('client')\<close> and
  \<open>resolve('errorPlugin')\<close>: two cached emitters, and a cached plugin that is no
  emitter and has nothing to do with them. \<open>mixedCleared\<close> is what tearing down the
  two emitters leaves.

  \<open>ServiceY\<close> is an emitter whose constructor takes \<open>y\<close>; \<open>NeedsZ\<close> takes \<open>z\<close>.
  \<open>staleDepTree\<close> is the tree after \<open>constant('y', 0)\<close>,
  \<open>singleton('service', ServiceY)\<close>, \<open>singleton('client', Client)\<close>,
  \<open>resolve('client')\<close> and \<open>register('y', NeedsZ)\<close>, with nothing registered as
  \<open>z\<close>; \<open>staleDepCleared\<close> is what tearing down its two entries leaves.

  \<open>blankClientTree\<close> is the tree after \<open>singleton('service', Service)\<close>,
  \<open>singleton('', Client)\<close> and \<open>resolve('')\<close>.
\<close>

definition mixedTree :: tree where
  "mixedTree = \<lparr>registry =
       [(''service'', factoryRecord Service True), (''client'', factoryRecord Client True),
        (''errorParser'', constantRecord (Num 0) False),
        (''errorPlugin'', factoryRecord TestPlugin True)],
     resolved =
       [(''service'', \<lparr>ctx = \<lparr>cref = 0, hasEmit = True, hasRemoveAllListeners = True\<rparr>,
           cvalue = Ref 0\<rparr>),
        (''client'', \<lparr>ctx = \<lparr>cref = 1, hasEmit = True, hasRemoveAllListeners = True\<rparr>,
           cvalue = Ref 1\<rparr>),
        (''errorPlugin'', \<lparr>ctx = \<lparr>cref = 2, hasEmit = False, hasRemoveAllListeners = False\<rparr>,
           cvalue = Ref 2\<rparr>)],
     nextRef = 3,
     trace = [Invoke ''service'' 0 [], Invoke ''client'' 1 [Ref 0],
              Invoke ''errorPlugin'' 2 [Num 0]]\<rparr>"

definition mixedCleared :: tree where
  "mixedCleared = mixedTree\<lparr>resolved :=
       [(''errorPlugin'', \<lparr>ctx = \<lparr>cref = 2, hasEmit = False, hasRemoveAllListeners = False\<rparr>,
           cvalue = Ref 2\<rparr>)],
     trace := trace mixedTree
       @ [Emit ''client'', Evict ''client'', Emit ''service'', Evict ''service'']\<rparr>"

definition ServiceY :: js_function where
  "ServiceY = \<lparr>ident = 10, argDecl = ''y'', protoEmit = True,
     protoRemoveAllListeners = True, body = (\<lambda>this args. Undefined)\<rparr>"

definition NeedsZ :: js_function where
  "NeedsZ = \<lparr>ident = 11, argDecl = ''z'', protoEmit = False,
     protoRemoveAllListeners = False, body = (\<lambda>this args. Undefined)\<rparr>"

definition staleDepTree :: tree where
  "staleDepTree = \<lparr>registry =
       [(''y'', factoryRecord NeedsZ False), (''service'', factoryRecord ServiceY True),
        (''client'', factoryRecord Client True)],
     resolved =
       [(''service'', \<lparr>ctx = \<lparr>cref = 0, hasEmit = True, hasRemoveAllListeners = True\<rparr>,
           cvalue = Ref 0\<rparr>),
        (''client'', \<lparr>ctx = \<lparr>cref = 1, hasEmit = True, hasRemoveAllListeners = True\<rparr>,
           cvalue = Ref 1\<rparr>)],
     nextRef = 2,
     trace = [Invoke ''service'' 0 [Num 0], Invoke ''client'' 1 [Ref 0]]\<rparr>"

definition staleDepCleared :: tree where
  "staleDepCleared = staleDepTree\<lparr>resolved := [],
     trace := trace staleDepTree
       @ [Emit ''client'', Evict ''client'', Emit ''service'', Evict ''service'']\<rparr>"

definition blankClientTree :: tree where
  "blankClientTree = \<lparr>registry =
       [(''service'', factoryRecord Service True), ([], factoryRecord Client True)],
     resolved =
       [(''service'', \<lparr>ctx = \<lparr>cref = 0, hasEmit = True, hasRemoveAllListeners = True\<rparr>,
           cvalue = Ref 0\<rparr>),
        ([], \<lparr>ctx = \<lparr>cref = 1, hasEmit = True, hasRemoveAllListeners = True\<rparr>,
           cvalue = Ref 1\<rparr>)],
     nextRef = 2,
     trace = [Invoke ''service'' 0 [], Invoke [] 1 [Ref 0]]\<rparr>"

text \<open>
  \<open>loopTree\<close> is the tree after \<open>register('A', DefaultErrorParser)\<close>,
  \<open>singleton('B', NeedsA)\<close>, \<open>resolve('B')\<close>, \<open>singleton('A', NeedsB)\<close> and
  \<open>resolve('A')\<close>; \<open>loopTree0\<close> is the state before the last of these calls. In
  \<open>loopTree\<close> both keys are cached and each depends on the other.
\<close>

definition loopTree0 :: tree where
  "loopTree0 = \<lparr>registry =
       [(''A'', factoryRecord NeedsB True), (''B'', factoryRecord NeedsA True)],
     resolved =
       [(''B'', \<lparr>ctx = \<lparr>cref = 1, hasEmit = False, hasRemoveAllListeners = False\<rparr>,
           cvalue = Ref 1\<rparr>)],
     nextRef = 2,
     trace = [Invoke ''A'' 0 [], Invoke ''B'' 1 [Ref 0]]\<rparr>"

definition loopTree :: tree where
  "loopTree = loopTree0\<lparr>resolved :=
       [(''B'', \<lparr>ctx = \<lparr>cref = 1, hasEmit = False, hasRemoveAllListeners = False\<rparr>,
           cvalue = Ref 1\<rparr>),
        (''A'', \<lparr>ctx = \<lparr>cref = 2, hasEmit = False, hasRemoveAllListeners = False\<rparr>,
           cvalue = Ref 2\<rparr>)],
     nextRef := 3,
     trace := [Invoke ''A'' 0 [], Invoke ''B'' 1 [Ref 0], Invoke ''A'' 2 [Ref 1]]\<rparr>"

text \<open>The options \<open>{ aggregateOn: "agg" }\<close>.\<close>

definition aggOptions :: opts_arg where
  "aggOptions = PlainOpts (emptyOptions\<lparr>optAggregateOn := AggKey ''agg''\<rparr>)"

subsection \<open>How a resolution changes the state\<close>

text \<open>
  \<open>grows reg P s s'\<close>: from \<open>s\<close> to \<open>s'\<close> the registry is the same, the allocation
  counter has not gone back, the trace has only been extended, every cache entry of
  \<open>s\<close> is still there unchanged, and a key that has an entry only in \<open>s'\<close> is a
  singleton of \<open>reg\<close> outside \<open>P\<close>.
\<close>

definition grows :: "(key \<times> registration) list \<Rightarrow> key set \<Rightarrow> tree \<Rightarrow> tree \<Rightarrow> bool" where
  "grows reg P s s' \<longleftrightarrow>
     registry s' = registry s \<and> nextRef s \<le> nextRef s'
     \<and> (\<exists>evs. trace s' = trace s @ evs)
     \<and> (\<forall>k e. map_of (resolved s) k = Some e \<longrightarrow> map_of (resolved s') k = Some e)
     \<and> (\<forall>k. map_of (resolved s) k = None \<and> map_of (resolved s') k \<noteq> None \<longrightarrow>
            k \<notin> P \<and> (\<exists>config. map_of reg k = Some config \<and> isSingleton config))"

subsection \<open>How a teardown changes the state, and when it goes through\<close>

text \<open>
  \<open>shrinks t t'\<close>: from \<open>t\<close> to \<open>t'\<close> the registry is the same, the cache has only
  lost entries, the trace has only been extended, and every key that lost its entry has
  an \<open>Evict\<close> event in the extension.

  \<open>teardownSafe rank t\<close>: no registered key is a name inherited from
  \<open>Object.prototype\<close>; every cached context has \<open>emit\<close> and \<open>removeAllListeners\<close>;
  and \<open>rank\<close> orders the cached keys so that a cached dependent of a cached key ranks
  strictly below it (the cached keys do not depend on each other in a circle).
  \<open>fuelFor rank t\<close> is two more than the largest rank of a cached key.

  \<open>cascadeSafe rank R t\<close> asks the same of the keys in \<open>R\<close> only: every cached key in
  \<open>R\<close> has a context with \<open>emit\<close> and \<open>removeAllListeners\<close>, none of its
  dependents is a name inherited from \<open>Object.prototype\<close>, and each of its cached
  dependents is in \<open>R\<close> again and ranks strictly below it. So \<open>R\<close> need only hold
  what a cascade reaches: a key, its cached dependents, theirs, and so on.
\<close>

definition teardownSafe :: "(key \<Rightarrow> nat) \<Rightarrow> tree \<Rightarrow> bool" where
  "teardownSafe rank t \<longleftrightarrow>
     list_all (\<lambda>k. k \<notin> set objectPrototypeKeys) (map fst (registry t))
     \<and> list_all (\<lambda>(k, e). hasEmit (ctx e) \<and> hasRemoveAllListeners (ctx e)) (resolved t)
     \<and> list_all (\<lambda>(k, e). list_all (\<lambda>d. hasOwnProperty (resolved t) d \<longrightarrow> rank d < rank k)
                             (dependsOnKey (registry t) k))
          (resolved t)"

definition fuelFor :: "(key \<Rightarrow> nat) \<Rightarrow> tree \<Rightarrow> nat" where
  "fuelFor rank t = Suc (Suc (foldr (\<lambda>k m. max (rank k) m) (map fst (resolved t)) 0))"

definition cascadeSafe :: "(key \<Rightarrow> nat) \<Rightarrow> key list \<Rightarrow> tree \<Rightarrow> bool" where
  "cascadeSafe rank R t \<longleftrightarrow>
     list_all (\<lambda>(k, e). k \<in> set R \<longrightarrow>
         hasEmit (ctx e) \<and> hasRemoveAllListeners (ctx e)
         \<and> list_all (\<lambda>d. d \<notin> set objectPrototypeKeys
                        \<and> (hasOwnProperty (resolved t) d \<longrightarrow> d \<in> set R \<and> rank d < rank k))
              (dependsOnKey (registry t) k))
       (resolved t)"

definition shrinks :: "tree \<Rightarrow> tree \<Rightarrow> bool" where
  "shrinks t t' \<longleftrightarrow>
     registry t' = registry t \<and> set (resolved t') \<subseteq> set (resolved t)
     \<and> (\<exists>evs. trace t' = trace t @ evs
          \<and> (\<forall>k. k \<in> fst ` set (resolved t) \<and> k \<notin> fst ` set (resolved t') \<longrightarrow> Evict k \<in> set evs))"

section \<open>Basic facts\<close>

lemma getProp_Own_iff: "getProp obj k = Own v \<longleftrightarrow> map_of obj k = Some v"
  by (auto simp: getProp_def split: option.splits)

lemma countBy_snoc: "1 < countBy (path @ [k]) k \<longleftrightarrow> k \<in> set path"
  using count_list_0_iff [of path k] by (auto simp: countBy_def)

text \<open>\<open>_resolve\<close> always returns: a key that is looked into further is registered and
  was not on the path before, so the registered keys off the path get fewer.\<close>

termination priv_resolve
proof (relation "inv_image (less_than <*lex*> less_than)
    (\<lambda>x. case x of
        Inl (reg, k, path, s) \<Rightarrow> (card (fst ` set reg - set path), 0)
      | Inr (reg, p, ds, acc, s) \<Rightarrow> (card (fst ` set reg - set p), Suc (length ds)))", goal_cases)
  case 1
  show ?case by (intro wf_inv_image wf_lex_prod wf_less_than)
next
  case (2 reg k path s p config)
  from 2 have reg: "k \<in> fst ` set reg"
    by (auto simp: getProp_Own_iff dest!: map_of_SomeD intro: rev_image_eqI)
  from 2 have fresh: "k \<notin> set path"
    using countBy_snoc [of path k] by auto
  have "fst ` set reg - set (path @ [k]) \<subset> fst ` set reg - set path"
    using reg fresh by auto
  then have "card (fst ` set reg - set (path @ [k])) < card (fst ` set reg - set path)"
    by (intro psubset_card_mono) auto
  with 2 show ?case by simp
next
  case 3
  then show ?case by simp
next
  case 4
  then show ?case by simp
qed

declare priv_resolve.simps [simp del]

subsection \<open>The branches of \<open>_resolve\<close>\<close>

lemma getProp_Missing_iff:
  "getProp obj k = Missing \<longleftrightarrow> map_of obj k = None \<and> k \<notin> set objectPrototypeKeys"
  by (auto simp: getProp_def split: option.splits)

lemma getProp_Inherited_iff:
  "getProp obj k = Inherited \<longleftrightarrow> map_of obj k = None \<and> k \<in> set objectPrototypeKeys"
  by (auto simp: getProp_def split: option.splits)

lemma priv_resolve_Missing:
  "getProp reg k = Missing \<Longrightarrow>
   priv_resolve reg k path s = (Inl (unregisteredDependency k (path @ [k])), s)"
  by (simp add: priv_resolve.simps)

lemma priv_resolve_cycle:
  "getProp reg k \<noteq> Missing \<Longrightarrow> k \<in> set path \<Longrightarrow>
   priv_resolve reg k path s = (Inl (circularDependency (path @ [k])), s)"
  using countBy_snoc [of path k]
  by (cases "getProp reg k") (simp_all add: priv_resolve.simps)

lemma priv_resolve_cached:
  "getProp reg k \<noteq> Missing \<Longrightarrow> k \<notin> set path \<Longrightarrow> map_of (resolved s) k = Some e \<Longrightarrow>
   priv_resolve reg k path s = (Inr (cvalue e), s)"
  using countBy_snoc [of path k]
  by (cases "getProp reg k") (simp_all add: priv_resolve.simps)

lemma priv_resolve_Inherited:
  "getProp reg k = Inherited \<Longrightarrow> k \<notin> set path \<Longrightarrow> map_of (resolved s) k = None \<Longrightarrow>
   priv_resolve reg k path s = (Inl TypeError, s)"
  using countBy_snoc [of path k]
  by (simp add: priv_resolve.simps)

lemma priv_resolve_constant:
  "map_of reg k = Some config \<Longrightarrow> k \<notin> set path \<Longrightarrow> map_of (resolved s) k = None \<Longrightarrow>
   isConstant config \<Longrightarrow>
   priv_resolve reg k path s =
     (if \<not> isSingleton config then (Inr (payloadValue (rvalue config)), s)
      else (case plainContext s of
              (c, s1) \<Rightarrow> finish k True c (payloadValue (rvalue config)) s1))"
  using countBy_snoc [of path k]
  by (simp add: priv_resolve.simps getProp_Own_iff [THEN iffD2])

lemma priv_resolve_factory:
  "map_of reg k = Some config \<Longrightarrow> k \<notin> set path \<Longrightarrow> map_of (resolved s) k = None \<Longrightarrow>
   \<not> isConstant config \<Longrightarrow>
   priv_resolve reg k path s =
     (case resolveEach reg (path @ [k]) (dependencies config) [] s of
        (Inl err, s1) \<Rightarrow> (Inl err, s1)
      | (Inr resolvedDeps, s1) \<Rightarrow>
          (case rvalue config of
             Plain v \<Rightarrow> (Inl TypeError, s1)
           | Callable f \<Rightarrow>
               (case invokeFactory k f resolvedDeps s1 of
                  ((c, v), s2) \<Rightarrow> finish k (isSingleton config) c v s2)))"
  using countBy_snoc [of path k]
  by (simp add: priv_resolve.simps getProp_Own_iff [THEN iffD2])

lemma grows_refl: "grows reg P s s"
  by (auto simp: grows_def)

lemma grows_trans: "grows reg P s s1 \<Longrightarrow> grows reg P s1 s2 \<Longrightarrow> grows reg P s s2"
  unfolding grows_def
  by (elim conjE exE, intro conjI) (simp, simp, simp, simp, metis option.exhaust)

lemma grows_mono: "grows reg P s s' \<Longrightarrow> Q \<subseteq> P \<Longrightarrow> grows reg Q s s'"
  unfolding grows_def by blast

lemma grows_invokeFactory:
  "invokeFactory k f args s = ((c, v), s') \<Longrightarrow> grows reg P s s'"
  by (auto simp: invokeFactory_def grows_def Let_def)

lemma grows_plainContext: "plainContext s = (c, s') \<Longrightarrow> grows reg P s s'"
  by (auto simp: plainContext_def grows_def)

lemma grows_finish:
  "finish k single c v s = (r, s') \<Longrightarrow> map_of (resolved s) k = None \<Longrightarrow> k \<notin> P \<Longrightarrow>
   map_of reg k = Some config \<Longrightarrow> isSingleton config = single \<Longrightarrow> grows reg P s s'"
  by (auto simp: finish_def grows_def update_conv' split: if_splits)

lemma grows_None: "grows reg P s s' \<Longrightarrow> k \<in> P \<Longrightarrow> map_of (resolved s) k = None \<Longrightarrow>
  map_of (resolved s') k = None"
  unfolding grows_def by blast

lemma resolve_grows:
  "grows reg (set path) s (snd (priv_resolve reg k path s))"
  "grows reg (set p) s (snd (resolveEach reg p ds acc s))"
proof (induction reg k path s and reg p ds acc s rule: priv_resolve_resolveEach.induct)
  case (1 reg k path s)
  consider (missing) "getProp reg k = Missing"
    | (cycle) "getProp reg k \<noteq> Missing" "k \<in> set path"
    | (cached) e where "getProp reg k \<noteq> Missing" "k \<notin> set path" "map_of (resolved s) k = Some e"
    | (inherited) "getProp reg k = Inherited" "k \<notin> set path" "map_of (resolved s) k = None"
    | (const) config where "map_of reg k = Some config" "k \<notin> set path"
        "map_of (resolved s) k = None" "isConstant config"
    | (factory) config where "map_of reg k = Some config" "k \<notin> set path"
        "map_of (resolved s) k = None" "\<not> isConstant config"
    by (cases "getProp reg k"; cases "map_of (resolved s) k") (auto simp: getProp_Own_iff)
  then show ?case
  proof cases
    case missing
    then show ?thesis by (simp add: priv_resolve_Missing grows_refl)
  next
    case cycle
    then show ?thesis by (simp add: priv_resolve_cycle grows_refl)
  next
    case cached
    then show ?thesis by (simp add: priv_resolve_cached grows_refl)
  next
    case inherited
    then show ?thesis by (simp add: priv_resolve_Inherited grows_refl)
  next
    case const
    show ?thesis
    proof (cases "isSingleton config")
      case False
      with const show ?thesis by (simp add: priv_resolve_constant grows_refl)
    next
      case True
      obtain c s1 where pc: "plainContext s = (c, s1)" by (cases "plainContext s")
      then have g1: "grows reg (set path) s s1" by (rule grows_plainContext)
      have "resolved s1 = resolved s" using pc by (auto simp: plainContext_def)
      with const have none: "map_of (resolved s1) k = None" by simp
      obtain r s2 where fin: "finish k True c (payloadValue (rvalue config)) s1 = (r, s2)"
        by (cases "finish k True c (payloadValue (rvalue config)) s1")
      from grows_finish [OF fin none const(2) const(1)] True
      have "grows reg (set path) s1 s2" by simp
      with g1 have "grows reg (set path) s s2" by (rule grows_trans)
      with const True pc fin show ?thesis by (simp add: priv_resolve_constant)
    qed
  next
    case factory
    have notcyc: "\<not> 1 < countBy (path @ [k]) k"
      using factory(2) countBy_snoc [of path k] by simp
    have ih: "grows reg (set (path @ [k])) s
                (snd (resolveEach reg (path @ [k]) (dependencies config) [] s))"
      using "1.IH" [OF refl _ notcyc factory(3,4)] factory(1) by (simp add: getProp_Own_iff)
    obtain r s1 where re: "resolveEach reg (path @ [k]) (dependencies config) [] s = (r, s1)"
      by (cases "resolveEach reg (path @ [k]) (dependencies config) [] s")
    with ih have g1: "grows reg (set (path @ [k])) s s1" by simp
    then have g1': "grows reg (set path) s s1" by (rule grows_mono) auto
    have none: "map_of (resolved s1) k = None"
      using grows_None [OF g1 _ factory(3)] by simp
    show ?thesis
    proof (cases r)
      case (Inl err)
      with factory re g1' show ?thesis by (simp add: priv_resolve_factory)
    next
      case (Inr args)
      show ?thesis
      proof (cases "rvalue config")
        case (Plain v)
        with factory re g1' Inr show ?thesis by (simp add: priv_resolve_factory)
      next
        case (Callable f)
        obtain c v s2 where inv: "invokeFactory k f args s1 = ((c, v), s2)"
          by (cases "invokeFactory k f args s1") auto
        then have g2: "grows reg (set path) s1 s2" by (rule grows_invokeFactory)
        have "resolved s2 = resolved s1" using inv by (auto simp: invokeFactory_def Let_def)
        with none have none2: "map_of (resolved s2) k = None" by simp
        obtain r3 s3 where fin: "finish k (isSingleton config) c v s2 = (r3, s3)"
          by (cases "finish k (isSingleton config) c v s2")
        from grows_finish [OF fin none2 factory(2) factory(1)]
        have "grows reg (set path) s2 s3" by simp
        with g1' g2 have "grows reg (set path) s s3" by (blast intro: grows_trans)
        with factory re Inr Callable inv fin show ?thesis by (simp add: priv_resolve_factory)
      qed
    qed
  qed
next
  case (2 reg p acc s)
  show ?case by (simp add: grows_refl)
next
  case (3 reg p d ds acc s)
  obtain r s1 where pr: "priv_resolve reg d p s = (r, s1)" by (cases "priv_resolve reg d p s")
  with "3.IH"(1) have g1: "grows reg (set p) s s1" by simp
  show ?case
  proof (cases r)
    case (Inl err)
    with pr g1 show ?thesis by simp
  next
    case (Inr v)
    from "3.IH"(2) [OF pr [symmetric] Inr]
    have "grows reg (set p) s1 (snd (resolveEach reg p ds (acc @ [v]) s1))" .
    with g1 have "grows reg (set p) s (snd (resolveEach reg p ds (acc @ [v]) s1))"
      by (rule grows_trans)
    with pr Inr show ?thesis by simp
  qed
qed

lemma priv_resolve_singleton_cached:
  assumes reg: "map_of reg k = Some config"
    and single: "isSingleton config"
    and ok: "priv_resolve reg k path s = (Inr v, s')"
  shows "\<exists>e. map_of (resolved s') k = Some e \<and> cvalue e = v"
proof -
  have own: "getProp reg k \<noteq> Missing"
    using reg by (simp add: getProp_def)
  have fresh: "k \<notin> set path"
    using ok own by (auto simp: priv_resolve_cycle)
  show ?thesis
  proof (cases "map_of (resolved s) k")
    case (Some e)
    with ok own fresh show ?thesis by (simp add: priv_resolve_cached)
  next
    case None
    show ?thesis
    proof (cases "isConstant config")
      case True
      with ok reg single None fresh show ?thesis
        by (auto simp: priv_resolve_constant finish_def update_conv' split: prod.splits)
    next
      case False
      with ok reg single None fresh show ?thesis
        by (auto simp: priv_resolve_factory finish_def update_conv'
            split: prod.splits sum.splits payload.splits)
    qed
  qed
qed

lemma resolveEach_args:
  "resolveEach reg p ds acc s = (Inr args, s') \<Longrightarrow>
   length args = length acc + length ds \<and> take (length acc) args = acc
   \<and> (\<forall>j config. j < length ds \<and> map_of reg (ds ! j) = Some config \<and> isSingleton config
        \<longrightarrow> (\<exists>e. map_of (resolved s') (ds ! j) = Some e
                  \<and> cvalue e = args ! (length acc + j)))"
proof (induction ds arbitrary: acc s)
  case Nil
  then show ?case by simp
next
  case (Cons d ds)
  from Cons.prems obtain v s1 where
    hd: "priv_resolve reg d p s = (Inr v, s1)" and
    tl: "resolveEach reg p ds (acc @ [v]) s1 = (Inr args, s')"
    by (auto split: prod.splits sum.splits)
  from Cons.IH [OF tl] have
    len: "length args = length acc + length (d # ds)" and
    tk: "take (Suc (length acc)) args = acc @ [v]" and
    rest: "\<And>j config. j < length ds \<Longrightarrow> map_of reg (ds ! j) = Some config \<Longrightarrow>
             isSingleton config \<Longrightarrow>
             \<exists>e. map_of (resolved s') (ds ! j) = Some e \<and> cvalue e = args ! (Suc (length acc + j))"
    by auto
  have tk': "take (length acc) args = acc"
  proof -
    have "take (length acc) (take (Suc (length acc)) args) = take (length acc) (acc @ [v])"
      by (simp only: tk)
    then show ?thesis by (simp add: min_def)
  qed
  have at: "args ! length acc = v"
  proof -
    have "take (Suc (length acc)) args ! length acc = (acc @ [v]) ! length acc"
      by (simp only: tk)
    then show ?thesis by simp
  qed
  have g: "grows reg (set p) s1 s'"
    using resolve_grows(2) [of reg p s1 ds "acc @ [v]"] tl by simp
  have "\<exists>e. map_of (resolved s') ((d # ds) ! j) = Some e \<and> cvalue e = args ! (length acc + j)"
    if j: "j < length (d # ds)" and c: "map_of reg ((d # ds) ! j) = Some config"
      "isSingleton config" for j config
  proof (cases j)
    case 0
    with c have "\<exists>e. map_of (resolved s1) d = Some e \<and> cvalue e = v"
      using priv_resolve_singleton_cached [OF _ _ hd] by simp
    with g 0 at show ?thesis by (auto simp: grows_def)
  next
    case (Suc j')
    with j c rest [of j' config] show ?thesis by simp
  qed
  with len tk' show ?case by blast
qed





subsection \<open>Facts about \<open>_destroy\<close>\<close>

lemma hasOwnProperty_iff: "hasOwnProperty obj k \<longleftrightarrow> k \<in> fst ` set obj"
  by (simp add: hasOwnProperty_def map_of_eq_None_iff)

lemma set_objectKeys: "set (objectKeys obj) = fst ` set obj"
  by (auto simp: objectKeys_def)

lemma dependsOnKey_iff:
  "d \<in> set (dependsOnKey reg k) \<longleftrightarrow>
     d \<noteq> [] \<and> (\<exists>config. map_of reg d = Some config \<and> k \<in> set (dependencies config))"
  by (auto simp: dependsOnKey_def set_objectKeys contains_def split: option.splits
      dest: map_of_SomeD intro: rev_image_eqI)

lemma dependsOnKey_registered: "d \<in> set (dependsOnKey reg k) \<Longrightarrow> d \<in> fst ` set reg"
  by (auto simp: dependsOnKey_iff dest: map_of_SomeD intro: rev_image_eqI)

lemma shrinks_refl: "shrinks t t"
  by (auto simp: shrinks_def)

lemma shrinks_trans: "shrinks t t1 \<Longrightarrow> shrinks t1 t2 \<Longrightarrow> shrinks t t2"
  unfolding shrinks_def
  apply (elim conjE exE)
  subgoal for evs1 evs2
    apply (intro conjI)
      apply simp
     apply blast
    apply (rule exI [of _ "evs1 @ evs2"])
    apply (intro conjI)
     apply simp
    apply (intro allI impI)
    subgoal for k
      by (cases "k \<in> fst ` set (resolved t1)") auto
    done
  done

lemma shrinks_emit: "shrinks t (t\<lparr>trace := trace t @ [Emit k]\<rparr>)"
  by (auto simp: shrinks_def)

lemma destroy_shrinks:
  "priv_destroy n k t = Some (r, t') \<Longrightarrow> shrinks t t'"
  "destroyEach n ds t = Some (r, t') \<Longrightarrow> shrinks t t'"
proof (induction n k t and n ds t arbitrary: r t' and r t' rule: priv_destroy_destroyEach.induct)
  case (1 k t)
  then show ?case by simp
next
  case (2 n k t)
  show ?case
  proof (cases "getProp (resolved t) k")
    case Missing
    with "2.prems" show ?thesis by (simp add: shrinks_refl)
  next
    case Inherited
    with "2.prems" obtain r1 t1 where
      "destroyEach n (dependsOnKey (registry t) k) t = Some (r1, t1)" "t' = t1"
      by (auto split: option.splits sum.splits prod.splits)
    with "2.IH"(1) [OF Inherited] show ?thesis by simp
  next
    case (Own e)
    from Own have own: "hasOwnProperty (resolved t) k"
      by (simp add: getProp_Own_iff hasOwnProperty_def)
    from "2.prems" Own obtain r1 t1 where
      de: "destroyEach n (dependsOnKey (registry t) k) t = Some (r1, t1)"
      by (auto split: option.splits sum.splits prod.splits)
    from "2.IH"(2) [OF Own de] have s1: "shrinks t t1" .
    show ?thesis
    proof (cases r1)
      case (Inl err)
      with "2.prems" Own de s1 show ?thesis by simp
    next
      case (Inr u)
      consider (noEmit) "\<not> hasEmit (ctx e)"
        | (noRemove) "hasEmit (ctx e)" "\<not> hasRemoveAllListeners (ctx e)"
        | (ok) "hasEmit (ctx e)" "hasRemoveAllListeners (ctx e)"
        by blast
      then show ?thesis
      proof cases
        case noEmit
        with "2.prems" Own de Inr s1 show ?thesis by simp
      next
        case noRemove
        with "2.prems" Own de Inr have "t' = t1\<lparr>trace := trace t1 @ [Emit k]\<rparr>" by simp
        with s1 shrinks_emit [of t1 k] show ?thesis by (auto intro: shrinks_trans)
      next
        case ok
        with "2.prems" Own de Inr have t': "t' = t1\<lparr>resolved := AList.delete k (resolved t1),
            trace := trace t1 @ [Emit k, Evict k]\<rparr>" by simp
        have "shrinks t1 t'"
          unfolding t' by (auto simp: shrinks_def AList.delete_eq)
        with s1 have s: "shrinks t t1" "shrinks t1 t'" by simp_all
        have "Evict k \<in> set evs" if "trace t' = trace t @ evs" for evs
        proof -
          from s1 obtain evs1 where "trace t1 = trace t @ evs1" by (auto simp: shrinks_def)
          with that t' show ?thesis by auto
        qed
        with shrinks_trans [OF s] show ?thesis by simp
      qed
    qed
  qed
next
  case (3 n t)
  then show ?case by (simp add: shrinks_refl)
next
  case (4 n d ds t)
  from "4.prems" obtain r1 t1 where pd: "priv_destroy n d t = Some (r1, t1)"
    by (auto split: option.splits)
  from "4.IH"(1) [OF pd] have s1: "shrinks t t1" .
  show ?case
  proof (cases r1)
    case (Inl err)
    with "4.prems" pd s1 show ?thesis by simp
  next
    case (Inr u)
    with "4.prems" pd have "destroyEach n ds t1 = Some (r, t')" by simp
    from "4.IH"(2) [OF pd refl Inr this] s1 show ?thesis by (auto intro: shrinks_trans)
  qed
qed

lemma destroy_removes:
  "priv_destroy n k t = Some (Inr u, t') \<Longrightarrow> k \<notin> fst ` set (resolved t')"
proof (cases n)
  case 0
  assume "priv_destroy n k t = Some (Inr u, t')"
  with 0 show ?thesis by simp
next
  case (Suc m)
  assume ok: "priv_destroy n k t = Some (Inr u, t')"
  show ?thesis
  proof (cases "getProp (resolved t) k")
    case Missing
    with ok Suc have "t' = t" by simp
    with Missing show ?thesis
      by (simp add: getProp_Missing_iff map_of_eq_None_iff)
  next
    case Inherited
    with ok Suc show ?thesis
      by (auto split: option.splits sum.splits prod.splits)
  next
    case (Own e)
    with ok Suc show ?thesis
      by (auto simp: AList.delete_eq split: option.splits sum.splits prod.splits if_splits)
  qed
qed

lemma destroyEach_removes:
  "destroyEach n ds t = Some (Inr u, t') \<Longrightarrow> d \<in> set ds \<Longrightarrow> d \<notin> fst ` set (resolved t')"
proof (induction ds arbitrary: t)
  case Nil
  then show ?case by simp
next
  case (Cons x xs)
  from Cons.prems(1) obtain u1 t1 where
    pd: "priv_destroy n x t = Some (Inr u1, t1)" and
    de: "destroyEach n xs t1 = Some (Inr u, t')"
    by (auto split: option.splits sum.splits prod.splits)
  show ?case
  proof (cases "d = x")
    case True
    from destroy_removes [OF pd] have "x \<notin> fst ` set (resolved t1)" .
    moreover from destroy_shrinks(2) [OF de] have "set (resolved t') \<subseteq> set (resolved t1)"
      by (simp add: shrinks_def)
    ultimately show ?thesis using True by auto
  next
    case False
    with Cons.prems(2) have "d \<in> set xs" by simp
    from Cons.IH [OF de this] show ?thesis .
  qed
qed

lemma teardownSafe_rank:
  "teardownSafe rank t \<Longrightarrow> (k, e) \<in> set (resolved t) \<Longrightarrow>
   d \<in> set (dependsOnKey (registry t) k) \<Longrightarrow> d \<in> fst ` set (resolved t) \<Longrightarrow> rank d < rank k"
  unfolding teardownSafe_def list_all_iff hasOwnProperty_iff by fastforce

lemma teardownSafe_emitter:
  "teardownSafe rank t \<Longrightarrow> (k, e) \<in> set (resolved t) \<Longrightarrow>
   hasEmit (ctx e) \<and> hasRemoveAllListeners (ctx e)"
  unfolding teardownSafe_def list_all_iff by fastforce

lemma teardownSafe_ordinary:
  "teardownSafe rank t \<Longrightarrow> k \<in> fst ` set (registry t) \<Longrightarrow> k \<notin> set objectPrototypeKeys"
  unfolding teardownSafe_def list_all_iff by fastforce

lemma teardownSafe_shrinks:
  assumes "teardownSafe rank t" "shrinks t t'"
  shows "teardownSafe rank t'"
proof -
  from assms(2) have reg: "registry t' = registry t" and sub: "set (resolved t') \<subseteq> set (resolved t)"
    by (auto simp: shrinks_def)
  from sub have own: "hasOwnProperty (resolved t') d \<Longrightarrow> hasOwnProperty (resolved t) d" for d
    by (auto simp: hasOwnProperty_iff)
  from assms(1) reg sub own show ?thesis
    unfolding teardownSafe_def list_all_iff by (simp add: subset_iff) blast
qed

lemma fuelFor_bound:
  "k \<in> fst ` set (resolved t) \<Longrightarrow> rank k + 2 \<le> fuelFor rank t"
proof -
  have "x \<in> set xs \<Longrightarrow> rank x \<le> foldr (\<lambda>k m. max (rank k) m) xs 0" for x xs
    by (induction xs) auto
  from this [of k "map fst (resolved t)"] show "k \<in> fst ` set (resolved t) \<Longrightarrow> ?thesis"
    by (simp add: fuelFor_def)
qed

lemma cascadeSafe_emitter:
  "cascadeSafe rank R t \<Longrightarrow> (k, e) \<in> set (resolved t) \<Longrightarrow> k \<in> set R \<Longrightarrow>
   hasEmit (ctx e) \<and> hasRemoveAllListeners (ctx e)"
  unfolding cascadeSafe_def list_all_iff by fastforce

lemma cascadeSafe_dependent:
  "cascadeSafe rank R t \<Longrightarrow> (k, e) \<in> set (resolved t) \<Longrightarrow> k \<in> set R \<Longrightarrow>
   d \<in> set (dependsOnKey (registry t) k) \<Longrightarrow>
   d \<notin> set objectPrototypeKeys
   \<and> (d \<in> fst ` set (resolved t) \<longrightarrow> d \<in> set R \<and> rank d < rank k)"
  unfolding cascadeSafe_def list_all_iff hasOwnProperty_iff by fastforce

lemma cascadeSafe_shrinks:
  assumes "cascadeSafe rank R t" "shrinks t t'"
  shows "cascadeSafe rank R t'"
proof -
  from assms(2) have reg: "registry t' = registry t" and sub: "set (resolved t') \<subseteq> set (resolved t)"
    by (auto simp: shrinks_def)
  from sub have own: "hasOwnProperty (resolved t') d \<Longrightarrow> hasOwnProperty (resolved t) d" for d
    by (auto simp: hasOwnProperty_iff)
  from assms(1) reg sub own show ?thesis
    unfolding cascadeSafe_def list_all_iff by (simp add: subset_iff) blast
qed

lemma teardownSafe_cascadeSafe:
  assumes safe: "teardownSafe rank t"
  shows "cascadeSafe rank (map fst (resolved t)) t"
proof -
  have "hasEmit (ctx e) \<and> hasRemoveAllListeners (ctx e)
      \<and> (\<forall>d \<in> set (dependsOnKey (registry t) k). d \<notin> set objectPrototypeKeys
            \<and> (hasOwnProperty (resolved t) d
                 \<longrightarrow> d \<in> set (map fst (resolved t)) \<and> rank d < rank k))"
    if mem: "(k, e) \<in> set (resolved t)" for k e
    using teardownSafe_emitter [OF safe mem] teardownSafe_rank [OF safe mem]
      teardownSafe_ordinary [OF safe dependsOnKey_registered]
    by (auto simp: hasOwnProperty_iff)
  then show ?thesis
    unfolding cascadeSafe_def list_all_iff by auto
qed

lemma cascade_total:
  "cascadeSafe rank R t \<Longrightarrow> 0 < n \<Longrightarrow>
   (k \<notin> fst ` set (resolved t) \<Longrightarrow> k \<notin> set objectPrototypeKeys) \<Longrightarrow>
   (k \<in> fst ` set (resolved t) \<Longrightarrow> k \<in> set R \<and> rank k + 2 \<le> n) \<Longrightarrow>
   \<exists>t'. priv_destroy n k t = Some (Inr (), t')"
  "cascadeSafe rank R t \<Longrightarrow> 0 < n \<Longrightarrow>
   (\<And>d. d \<in> set ds \<Longrightarrow> d \<notin> set objectPrototypeKeys) \<Longrightarrow>
   (\<And>d. d \<in> set ds \<Longrightarrow> d \<in> fst ` set (resolved t) \<Longrightarrow> d \<in> set R \<and> rank d + 2 \<le> n) \<Longrightarrow>
   \<exists>t'. destroyEach n ds t = Some (Inr (), t')"
proof (induction n k t and n ds t rule: priv_destroy_destroyEach.induct)
  case (1 k t)
  then show ?case by simp
next
  case (2 n k t)
  note safe = "2.prems"(1)
  show ?case
  proof (cases "getProp (resolved t) k")
    case Missing
    then show ?thesis by simp
  next
    case Inherited
    then have "k \<notin> fst ` set (resolved t)" "k \<in> set objectPrototypeKeys"
      by (simp_all add: getProp_Inherited_iff map_of_eq_None_iff)
    with "2.prems"(3) show ?thesis by simp
  next
    case (Own e)
    then have mem: "(k, e) \<in> set (resolved t)"
      by (auto simp: getProp_Own_iff dest: map_of_SomeD)
    then have cached: "k \<in> fst ` set (resolved t)" by (auto intro: rev_image_eqI)
    from "2.prems"(4) [OF cached] have inR: "k \<in> set R" and n: "rank k + 1 \<le> n" by simp_all
    have deps_ord: "d \<notin> set objectPrototypeKeys" if "d \<in> set (dependsOnKey (registry t) k)" for d
      using cascadeSafe_dependent [OF safe mem inR that] by simp
    have deps_rank: "d \<in> set R \<and> rank d + 2 \<le> n"
      if "d \<in> set (dependsOnKey (registry t) k)" "d \<in> fst ` set (resolved t)" for d
      using cascadeSafe_dependent [OF safe mem inR that(1)] that(2) n by simp
    from n have "0 < n" by simp
    from "2.IH"(2) [OF Own safe this deps_ord deps_rank]
    obtain t1 where de: "destroyEach n (dependsOnKey (registry t) k) t = Some (Inr (), t1)"
      by blast
    from cascadeSafe_emitter [OF safe mem inR]
    have "hasEmit (ctx e)" "hasRemoveAllListeners (ctx e)" by simp_all
    with Own de show ?thesis by simp
  qed
next
  case (3 n t)
  then show ?case by simp
next
  case (4 n d ds t)
  have "\<exists>t1. priv_destroy n d t = Some (Inr (), t1)"
    using "4.IH"(1) [OF "4.prems"(1,2)] "4.prems"(3,4) by simp
  then obtain t1 where pd: "priv_destroy n d t = Some (Inr (), t1)" by blast
  from destroy_shrinks(1) [OF pd] have sh: "shrinks t t1" .
  with "4.prems"(1) have safe1: "cascadeSafe rank R t1" by (rule cascadeSafe_shrinks)
  from sh have sub: "fst ` set (resolved t1) \<subseteq> fst ` set (resolved t)"
    by (auto simp: shrinks_def)
  have ord: "x \<notin> set objectPrototypeKeys" if "x \<in> set ds" for x
    using "4.prems"(3) [of x] that by simp
  have rk: "x \<in> set R \<and> rank x + 2 \<le> n" if "x \<in> set ds" "x \<in> fst ` set (resolved t1)" for x
    using "4.prems"(4) [of x] that sub by auto
  have "\<exists>t'. destroyEach n ds t1 = Some (Inr (), t')"
    by (rule "4.IH"(2) [OF pd refl refl safe1 "4.prems"(2) ord rk])
  with pd show ?case by simp
qed

lemma destroy_total:
  "teardownSafe rank t \<Longrightarrow> k \<notin> set objectPrototypeKeys \<Longrightarrow> 0 < n \<Longrightarrow>
   (k \<in> fst ` set (resolved t) \<Longrightarrow> rank k + 2 \<le> n) \<Longrightarrow>
   \<exists>t'. priv_destroy n k t = Some (Inr (), t')"
  "teardownSafe rank t \<Longrightarrow> 0 < n \<Longrightarrow>
   (\<And>d. d \<in> set ds \<Longrightarrow> d \<notin> set objectPrototypeKeys) \<Longrightarrow>
   (\<And>d. d \<in> set ds \<Longrightarrow> d \<in> fst ` set (resolved t) \<Longrightarrow> rank d + 2 \<le> n) \<Longrightarrow>
   \<exists>t'. destroyEach n ds t = Some (Inr (), t')"
proof -
  assume safe: "teardownSafe rank t" and "k \<notin> set objectPrototypeKeys" "0 < n"
    and "k \<in> fst ` set (resolved t) \<Longrightarrow> rank k + 2 \<le> n"
  then show "\<exists>t'. priv_destroy n k t = Some (Inr (), t')"
    by (intro cascade_total(1) [OF teardownSafe_cascadeSafe [OF safe]]) auto
next
  assume safe: "teardownSafe rank t" and "0 < n"
    and "\<And>d. d \<in> set ds \<Longrightarrow> d \<notin> set objectPrototypeKeys"
    and "\<And>d. d \<in> set ds \<Longrightarrow> d \<in> fst ` set (resolved t) \<Longrightarrow> rank d + 2 \<le> n"
  then show "\<exists>t'. destroyEach n ds t = Some (Inr (), t')"
    by (intro cascade_total(2) [OF teardownSafe_cascadeSafe [OF safe]]) auto
qed

lemma priv_resolve_constructs:
  assumes reg: "map_of reg x = Some config" "\<not> isConstant config"
    and none: "map_of (resolved s) x = None"
    and ok: "priv_resolve reg x path s = (Inr v, s')"
  shows "\<exists>c args tr. trace s' = trace s @ tr @ [Invoke x c args] \<and> nextRef s \<le> c"
proof -
  have own: "getProp reg x \<noteq> Missing"
    using reg by (simp add: getProp_def)
  have fresh: "x \<notin> set path"
    using ok own by (auto simp: priv_resolve_cycle)
  obtain r s1 where re: "resolveEach reg (path @ [x]) (dependencies config) [] s = (r, s1)"
    by (cases "resolveEach reg (path @ [x]) (dependencies config) [] s")
  have g: "grows reg (set (path @ [x])) s s1"
    using resolve_grows(2) [of reg "path @ [x]" s "dependencies config" "[]"] re by simp
  then obtain tr where tr: "trace s1 = trace s @ tr" and le: "nextRef s \<le> nextRef s1"
    by (auto simp: grows_def)
  from ok reg none fresh re obtain args f where
    "r = Inr args" "rvalue config = Callable f"
    by (cases r; cases "rvalue config") (auto simp: priv_resolve_factory)
  with ok reg none fresh re have "trace s' = trace s1 @ [Invoke x (nextRef s1) args]"
    by (auto simp: priv_resolve_factory invokeFactory_def finish_def Let_def split: if_splits)
  with tr le show ?thesis by auto
qed

lemma priv_resolve_uncached_factory:
  "map_of (registry t) x = Some config \<Longrightarrow> \<not> isConstant config \<Longrightarrow>
   map_of (resolved t) x = None \<Longrightarrow>
   resolve t x =
     (case resolveEach (registry t) [x] (dependencies config) [] t of
        (Inl err, s1) \<Rightarrow> (Inl err, s1)
      | (Inr resolvedDeps, s1) \<Rightarrow>
          (case rvalue config of
             Plain v \<Rightarrow> (Inl TypeError, s1)
           | Callable f \<Rightarrow>
               (case invokeFactory x f resolvedDeps s1 of
                  ((c, v), s2) \<Rightarrow> finish x (isSingleton config) c v s2)))"
  using priv_resolve_factory [of "registry t" x config "[]" t] by (simp add: resolve_def)

subsection \<open>Unfolding sets for concrete containers\<close>

lemmas eval_defs = resolve_def priv_resolve.simps getProp_def countBy_def invokeFactory_def
  finish_def payloadValue_def plainContext_def objectPrototypeKeys_def Let_def

lemmas example_defs = factoryRecord_def constantRecord_def findDependencies_def trim_def
  isSpace_def

lemmas register_defs = register_def singleton_reg_def constant_reg_def clone_def
  normalizeOptions_def emptyOptions_def isRegistered_def destroy_def

text \<open>The test's tree is what the two registrations of the test build.\<close>

lemma testTree_registered:
  "register 0 newTree ''errorPlugin'' (Callable TestPlugin) NoOpts =
     Some (Inr (), newTree\<lparr>registry := [(''errorPlugin'', factoryRecord TestPlugin False)]\<rparr>)"
  "singleton_reg 0 (newTree\<lparr>registry := [(''errorPlugin'', factoryRecord TestPlugin False)]\<rparr>)
     ''errorParser'' (Callable DefaultErrorParser) NoOpts = Some (Inr (), testTree)"
  by (simp_all add: register_defs getProp_def objectPrototypeKeys_def newTree_def testTree_def
      example_defs
      TestPlugin_def DefaultErrorParser_def)


lemmas destroy_defs = destroy_def dependsOnKey_def objectKeys_def isArrayIndex_def isDigit_def
  contains_def getProp_def objectPrototypeKeys_def

lemma serviceTree_safe: "teardownSafe serviceRank serviceTree"
  by (simp add: teardownSafe_def serviceTree_def serviceRank_def destroy_defs example_defs
      Service_def Client_def
      hasOwnProperty_def)

lemma serviceTree_fuel: "fuelFor serviceRank serviceTree = 3"
  by (simp add: fuelFor_def serviceTree_def serviceRank_def)

lemma blankServiceTree_safe: "teardownSafe serviceRank blankServiceTree"
  by (simp add: teardownSafe_def blankServiceTree_def serviceTree_def serviceRank_def
      destroy_defs example_defs
      Service_def Client_def hasOwnProperty_def)

lemma blankServiceTree_fuel: "fuelFor serviceRank blankServiceTree = 3"
  by (simp add: fuelFor_def blankServiceTree_def serviceTree_def serviceRank_def)

lemma mixedTree_safe: "cascadeSafe serviceRank [''service'', ''client''] mixedTree"
  by (simp add: cascadeSafe_def mixedTree_def serviceRank_def destroy_defs example_defs
      Service_def Client_def TestPlugin_def hasOwnProperty_def)

lemma mixedTree_reached:
  "resolve (newTree\<lparr>registry := registry mixedTree\<rparr>) ''client'' =
     (Inr (Ref 1), mixedTree\<lparr>resolved := take 2 (resolved mixedTree), nextRef := 2,
        trace := take 2 (trace mixedTree)\<rparr>)
   \<and> resolve (mixedTree\<lparr>resolved := take 2 (resolved mixedTree), nextRef := 2,
        trace := take 2 (trace mixedTree)\<rparr>) ''errorPlugin'' = (Inr (Ref 2), mixedTree)"
  by (simp add: eval_defs newTree_def mixedTree_def example_defs
      Service_def Client_def TestPlugin_def)

text \<open>
  A name inherited from \<open>Object.prototype\<close> cannot be registered: \<open>isRegistered\<close>
  answers true for it, \<open>destroy\<close> is called, and \<open>_destroy\<close> finds the inherited
  property in place of a cache entry and throws at \<open>context.emit\<close> (or a dependent
  throws before, or the call does not return). So no call of \<open>register\<close> puts such a
  name into the registry.
\<close>

lemma register_inherited_key_fails:
  assumes "k \<in> set objectPrototypeKeys" "map_of (resolved t) k = None"
  shows "register n t k v a \<noteq> Some (Inr (), t')"
proof -
  from assms have inh: "getProp (resolved t) k = Inherited"
    by (simp add: getProp_def)
  from assms(1) have ne: "k \<noteq> []"
    by (auto simp: objectPrototypeKeys_def)
  from assms(1) have reg: "isRegistered t k"
    by (auto simp: isRegistered_def getProp_def split: option.splits)
  have "priv_destroy n k t \<noteq> Some (Inr u, t1)" for u t1
    using inh by (cases n) (auto split: option.splits sum.splits prod.splits)
  then have "destroy n t (Some k) \<noteq> Some (Inr u, t1)" for u t1
    using ne by (simp add: destroy_def)
  then show ?thesis
    using reg by (auto simp: register_def split: sum.splits option.splits prod.splits)
qed

section \<open>Resolution\<close>

text \<open>
  C1, as the code has it. Let \<open>a\<close> be a factory that is not a singleton (and so has no
  cache entry), and let the singleton \<open>b\<close> stand at position \<open>i\<close> of its dependencies.
  When two successive \<open>resolve(a)\<close> both return, each has invoked the factory of \<open>a\<close> once
  more, on a context allocated for that call (\<open>c1\<close>, then the later \<open>c2\<close>), and both
  invocations got the cached value of \<open>b\<close> as argument \<open>i\<close>. A call returns what the
  factory returned, or its context when the factory returned nothing; so two calls of a
  factory that returns nothing return the two distinct contexts.
\<close>

theorem nonsingleton_shares_singleton:
  assumes A: "map_of (registry t) a = Some ca" "\<not> isConstant ca" "\<not> isSingleton ca"
      "rvalue ca = Callable f"
    and B: "i < length (dependencies ca)" "dependencies ca ! i = b"
      "map_of (registry t) b = Some cb" "isSingleton cb"
    and nocache: "map_of (resolved t) a = None"
    and r1: "resolve t a = (Inr v1, t1)"
    and r2: "resolve t1 a = (Inr v2, t2)"
  shows "\<exists>c1 c2 args1 args2 tr1 tr2 e.
      trace t1 = trace t @ tr1 @ [Invoke a c1 args1]
    \<and> trace t2 = trace t1 @ tr2 @ [Invoke a c2 args2]
    \<and> nextRef t \<le> c1 \<and> c1 < c2
    \<and> map_of (resolved t1) b = Some e \<and> map_of (resolved t2) b = Some e
    \<and> args1 ! i = cvalue e \<and> args2 ! i = cvalue e
    \<and> v1 = (if body f c1 args1 = Undefined then Ref c1 else body f c1 args1)
    \<and> v2 = (if body f c2 args2 = Undefined then Ref c2 else body f c2 args2)
    \<and> (body f c1 args1 = Undefined \<and> body f c2 args2 = Undefined \<longrightarrow> v1 \<noteq> v2)"
proof -
  let ?reg = "registry t"
  let ?ds = "dependencies ca"
  have step: "\<exists>args s1 tr e.
        resolveEach ?reg [a] ?ds [] s = (Inr args, s1)
      \<and> trace s' = trace s @ tr @ [Invoke a (nextRef s1) args]
      \<and> nextRef s \<le> nextRef s1 \<and> nextRef s' = Suc (nextRef s1)
      \<and> resolved s' = resolved s1 \<and> registry s' = registry s
      \<and> grows ?reg {a} s s1
      \<and> map_of (resolved s1) b = Some e \<and> args ! i = cvalue e
      \<and> v = (if body f (nextRef s1) args = Undefined then Ref (nextRef s1)
              else body f (nextRef s1) args)"
    if reg: "registry s = ?reg" and none: "map_of (resolved s) a = None"
      and res: "resolve s a = (Inr v, s')" for s s' v
  proof -
    obtain r s1 where re: "resolveEach ?reg [a] ?ds [] s = (r, s1)"
      by (cases "resolveEach ?reg [a] ?ds [] s")
    from res reg none A re obtain args where r: "r = Inr args"
      by (cases r) (auto simp: resolve_def priv_resolve_factory)
    have g: "grows ?reg {a} s s1"
      using resolve_grows(2) [of ?reg "[a]" s ?ds "[]"] re by simp
    from res reg none A re r have s': "s' = s1\<lparr>nextRef := Suc (nextRef s1),
        trace := trace s1 @ [Invoke a (nextRef s1) args]\<rparr>"
      and v: "v = (if body f (nextRef s1) args = Undefined then Ref (nextRef s1)
              else body f (nextRef s1) args)"
      by (auto simp: resolve_def priv_resolve_factory invokeFactory_def finish_def Let_def)
    from g obtain tr where tr: "trace s1 = trace s @ tr" by (auto simp: grows_def)
    from resolveEach_args [OF re [unfolded r]] B obtain e where
      e: "map_of (resolved s1) b = Some e" "cvalue e = args ! i"
      by force
    from g have "nextRef s \<le> nextRef s1" "registry s1 = registry s" by (auto simp: grows_def)
    with re r s' v tr e g show ?thesis by auto
  qed
  from step [OF refl nocache r1] obtain args1 s1 tr1 e where 1:
    "trace t1 = trace t @ tr1 @ [Invoke a (nextRef s1) args1]"
    "nextRef t \<le> nextRef s1" "nextRef t1 = Suc (nextRef s1)"
    "resolved t1 = resolved s1" "registry t1 = registry t" "grows ?reg {a} t s1"
    "map_of (resolved s1) b = Some e" "args1 ! i = cvalue e"
    "v1 = (if body f (nextRef s1) args1 = Undefined then Ref (nextRef s1)
              else body f (nextRef s1) args1)"
    by blast
  have none1: "map_of (resolved t1) a = None"
    using grows_None [OF 1(6) _ nocache] 1(4) by simp
  from step [OF 1(5) none1 r2] obtain args2 s2 tr2 e' where 2:
    "trace t2 = trace t1 @ tr2 @ [Invoke a (nextRef s2) args2]"
    "nextRef t1 \<le> nextRef s2" "nextRef t2 = Suc (nextRef s2)"
    "resolved t2 = resolved s2" "registry t2 = registry t1" "grows ?reg {a} t1 s2"
    "map_of (resolved s2) b = Some e'" "args2 ! i = cvalue e'"
    "v2 = (if body f (nextRef s2) args2 = Undefined then Ref (nextRef s2)
              else body f (nextRef s2) args2)"
    by blast
  have same: "e' = e"
    using 2(6,7) 1(4,7) by (auto simp: grows_def)
  have lt: "nextRef s1 < nextRef s2" using 1(3) 2(2) by simp
  show ?thesis
    apply (rule exI [of _ "nextRef s1"], rule exI [of _ "nextRef s2"])
    apply (rule exI [of _ args1], rule exI [of _ args2])
    apply (rule exI [of _ tr1], rule exI [of _ tr2], rule exI [of _ e])
    using 1 2 same lt by auto
qed

text \<open>The test's scenario: two plugins, \<open>Ref 1\<close> and \<open>Ref 2\<close>, both built with the
  parser \<open>Ref 0\<close>.\<close>

theorem nonsingleton_shares_singleton_witness:
  "resolve testTree ''errorPlugin'' = (Inr (Ref 1), testTree1)
   \<and> resolve testTree1 ''errorPlugin'' = (Inr (Ref 2), testTree2)
   \<and> (\<exists>c1 c2 args1 args2 e.
        trace testTree1 = trace testTree @ [Invoke ''errorParser'' 0 []] @ [Invoke ''errorPlugin'' c1 args1]
      \<and> trace testTree2 = trace testTree1 @ [] @ [Invoke ''errorPlugin'' c2 args2]
      \<and> c1 < c2
      \<and> map_of (resolved testTree1) ''errorParser'' = Some e
      \<and> map_of (resolved testTree2) ''errorParser'' = Some e
      \<and> args1 ! 0 = cvalue e \<and> args2 ! 0 = cvalue e)"
proof -
  have A: "map_of (registry testTree) ''errorPlugin'' =
      Some \<lparr>dependencies = [''errorParser''], isConstant = False, isSingleton = False,
            rvalue = Callable TestPlugin\<rparr>"
    by (simp add: testTree_def)
  have B: "map_of (registry testTree) ''errorParser'' =
      Some \<lparr>dependencies = [], isConstant = False, isSingleton = True,
            rvalue = Callable DefaultErrorParser\<rparr>"
    by (simp add: testTree_def)
  have none: "map_of (resolved testTree) ''errorPlugin'' = None"
    by (simp add: testTree_def)
  have r1: "resolve testTree ''errorPlugin'' = (Inr (Ref 1), testTree1)"
    by (simp add: eval_defs testTree_def testTree1_def example_defs
      TestPlugin_def DefaultErrorParser_def)
  have r2: "resolve testTree1 ''errorPlugin'' = (Inr (Ref 2), testTree2)"
    by (simp add: eval_defs testTree_def testTree1_def testTree2_def example_defs
      TestPlugin_def DefaultErrorParser_def)
  from nonsingleton_shares_singleton [OF A _ _ _ _ _ B _ none r1 r2, of TestPlugin 0]
  obtain c1 c2 args1 args2 tr1 tr2 e where *:
    "trace testTree1 = trace testTree @ tr1 @ [Invoke ''errorPlugin'' c1 args1]"
    "trace testTree2 = trace testTree1 @ tr2 @ [Invoke ''errorPlugin'' c2 args2]"
    "c1 < c2"
    "map_of (resolved testTree1) ''errorParser'' = Some e"
    "map_of (resolved testTree2) ''errorParser'' = Some e"
    "args1 ! 0 = cvalue e" "args2 ! 0 = cvalue e"
    by auto
  from *(1) have "tr1 = [Invoke ''errorParser'' 0 []]"
    by (simp add: testTree1_def testTree_def)
  moreover from *(2) have "tr2 = []"
    by (simp add: testTree1_def testTree2_def)
  ultimately show ?thesis using r1 r2 * by blast
qed

text \<open>
  C1 as stated fails for a factory with an explicit return value. With
  \<open>register('A', function (B) { return B; })\<close> and \<open>singleton('B', DefaultErrorParser)\<close>
  both \<open>resolve('A')\<close> return the same object, the parser \<open>Ref 0\<close>, although the factory
  of \<open>A\<close> ran twice on two contexts.
\<close>

theorem nonsingleton_explicit_return:
  "register 0 newTree ''A'' (Callable Echo) NoOpts =
     Some (Inr (), newTree\<lparr>registry := [(''A'', factoryRecord Echo False)]\<rparr>)
   \<and> singleton_reg 0 (newTree\<lparr>registry := [(''A'', factoryRecord Echo False)]\<rparr>) ''B''
        (Callable DefaultErrorParser) NoOpts = Some (Inr (), echoTree)
   \<and> fst (resolve echoTree ''A'') = Inr (Ref 0)
   \<and> fst (resolve (snd (resolve echoTree ''A'')) ''A'') = Inr (Ref 0)
   \<and> trace (snd (resolve (snd (resolve echoTree ''A'')) ''A'')) =
       [Invoke ''B'' 0 [], Invoke ''A'' 1 [Ref 0], Invoke ''A'' 2 [Ref 0]]"
  by (simp add: register_defs eval_defs newTree_def echoTree_def example_defs
      DefaultErrorParser_def Echo_def)

text \<open>
  C2. Once \<open>resolve(k)\<close> has returned \<open>v\<close> for a singleton \<open>k\<close>, the cache holds \<open>v\<close>
  under \<open>k\<close>. In every later state with the same record and the same cache entry for \<open>k\<close>,
  \<open>resolve(k)\<close> returns \<open>v\<close> and leaves the state as it is: no allocation, no new
  trace event, hence no factory call and no resolution of a dependency. Resolving any key
  whatever, with or without success, keeps the registry and that entry, so both last until
  \<open>k\<close> is destroyed or registered again.
\<close>

theorem singleton_resolved_once:
  assumes reg: "map_of (registry t) k = Some config"
    and single: "isSingleton config"
    and first: "resolve t k = (Inr v, t1)"
  shows "(\<exists>e. map_of (resolved t1) k = Some e \<and> cvalue e = v)
    \<and> (\<forall>t2. map_of (registry t2) k = map_of (registry t) k
             \<and> map_of (resolved t2) k = map_of (resolved t1) k
           \<longrightarrow> resolve t2 k = (Inr v, t2))
    \<and> (\<forall>t2 k' r t3. map_of (resolved t2) k = map_of (resolved t1) k
             \<and> resolve t2 k' = (r, t3)
           \<longrightarrow> registry t3 = registry t2 \<and> map_of (resolved t3) k = map_of (resolved t1) k)"
proof -
  from priv_resolve_singleton_cached [OF reg single first [unfolded resolve_def]]
  obtain e where e: "map_of (resolved t1) k = Some e" "cvalue e = v" by blast
  have again: "resolve t2 k = (Inr v, t2)"
    if "map_of (registry t2) k = map_of (registry t) k"
      "map_of (resolved t2) k = map_of (resolved t1) k" for t2
  proof -
    have "getProp (registry t2) k \<noteq> Missing"
      using that(1) reg by (simp add: getProp_def)
    with that(2) e show ?thesis by (simp add: resolve_def priv_resolve_cached)
  qed
  have kept: "registry t3 = registry t2 \<and> map_of (resolved t3) k = map_of (resolved t1) k"
    if "map_of (resolved t2) k = map_of (resolved t1) k" "resolve t2 k' = (r, t3)"
    for t2 k' r t3
  proof -
    have "grows (registry t2) (set []) t2 t3"
      using resolve_grows(1) [of "registry t2" "[]" t2 k'] that(2) by (simp add: resolve_def)
    with that e show ?thesis by (simp add: grows_def)
  qed
  from e again kept show ?thesis by blast
qed

text \<open>The parser of the test's tree: resolved alone, and again after the plugin was
  resolved once and twice.\<close>

theorem singleton_resolved_once_witness:
  "resolve testTree ''errorParser'' =
     (Inr (Ref 0), testTree\<lparr>resolved := resolved testTree1, nextRef := 1,
                            trace := [Invoke ''errorParser'' 0 []]\<rparr>)
   \<and> resolve testTree1 ''errorParser'' = (Inr (Ref 0), testTree1)
   \<and> resolve testTree2 ''errorParser'' = (Inr (Ref 0), testTree2)"
proof -
  let ?t1 = "testTree\<lparr>resolved := resolved testTree1, nextRef := 1,
                       trace := [Invoke ''errorParser'' 0 []]\<rparr>"
  have reg: "map_of (registry testTree) ''errorParser'' =
      Some \<lparr>dependencies = [], isConstant = False, isSingleton = True,
            rvalue = Callable DefaultErrorParser\<rparr>"
    by (simp add: testTree_def)
  have first: "resolve testTree ''errorParser'' = (Inr (Ref 0), ?t1)"
    by (simp add: eval_defs testTree_def testTree1_def example_defs
      TestPlugin_def DefaultErrorParser_def)
  have single: "isSingleton \<lparr>dependencies = [], isConstant = False, isSingleton = True,
            rvalue = Callable DefaultErrorParser\<rparr>"
    by simp
  have later: "\<forall>t2. map_of (registry t2) ''errorParser'' = map_of (registry testTree) ''errorParser''
      \<and> map_of (resolved t2) ''errorParser'' = map_of (resolved ?t1) ''errorParser''
      \<longrightarrow> resolve t2 ''errorParser'' = (Inr (Ref 0), t2)"
    by (rule singleton_resolved_once [OF reg single first, THEN conjunct2, THEN conjunct1])
  have "resolve testTree1 ''errorParser'' = (Inr (Ref 0), testTree1)"
    using later [rule_format, of testTree1] by (simp add: testTree1_def)
  moreover have "resolve testTree2 ''errorParser'' = (Inr (Ref 0), testTree2)"
    using later [rule_format, of testTree2] by (simp add: testTree1_def testTree2_def)
  ultimately show ?thesis using first by simp
qed




text \<open>
  C5. Resolving a key that has no registration record should throw the
  unregistered-dependency error. For \<open>toString\<close> on a tree without registrations,
  \<open>this._registry[key]\<close> finds \<open>Object.prototype.toString\<close>, the test for
  \<open>undefined\<close> fails, and the call throws a \<open>TypeError\<close> at
  \<open>dependencies.forEach\<close>, since a function has no \<open>dependencies\<close>.
\<close>

theorem resolve_inherited_key:
  "map_of (registry newTree) ''toString'' = None
   \<and> resolve newTree ''toString'' = (Inl TypeError, newTree)"
  by (simp add: resolve_def newTree_def priv_resolve_Inherited getProp_Inherited_iff
      objectPrototypeKeys_def)

text \<open>For a key that is neither registered nor a name inherited from
  \<open>Object.prototype\<close> the error is the one the specification names, directly and as a
  dependency, with the requesters and then the key as path.\<close>

lemma resolve_unregistered:
  "getProp (registry t) x = Missing \<Longrightarrow>
   resolve t x = (Inl (unregisteredDependency x [x]), t)"
  by (simp add: resolve_def priv_resolve_Missing)

lemma resolveEach_unregistered:
  "getProp reg x = Missing \<Longrightarrow>
   resolveEach reg p (x # ds) acc s = (Inl (unregisteredDependency x (p @ [x])), s)"
  by (simp add: priv_resolve_Missing)

section \<open>Aggregation\<close>

text \<open>
  C3. Registering two keys with \<open>aggregateOn: "agg"\<close> should create the aggregator
  \<open>agg\<close>. Each of the two calls throws a \<open>TypeError\<close> at \<open>forEach\<close> instead, after it
  has put its own record into the registry; no record for \<open>agg\<close> is made, and
  \<open>resolve("agg")\<close> throws the unregistered-dependency error. This holds for any two
  factories \<open>f\<close> and \<open>g\<close>.
\<close>

theorem aggregateOn_throws:
  "(case register n newTree ''a'' (Callable f) aggOptions of
      None \<Rightarrow> False
    | Some (r1, t1) \<Rightarrow>
        (case register n t1 ''b'' (Callable g) aggOptions of
           None \<Rightarrow> False
         | Some (r2, t2) \<Rightarrow>
             r1 = Inl TypeError \<and> r2 = Inl TypeError
             \<and> map fst (registry t2) = [''a'', ''b'']
             \<and> \<not> isRegistered t2 ''agg''
             \<and> resolve t2 ''agg'' = (Inl (unregisteredDependency ''agg'' [''agg'']), t2)))"
proof -
  have fresh: "register n t k (Callable h) aggOptions =
      Some (Inl TypeError, t\<lparr>registry := AList.update k (factoryRecord h False) (registry t)\<rparr>)"
    if "\<not> isRegistered t k" for t k h
    using that
    by (simp add: register_def aggOptions_def normalizeOptions_def emptyOptions_def
        factoryRecord_def)
  have a: "\<not> isRegistered newTree ''a''"
    by (simp add: isRegistered_def getProp_def newTree_def objectPrototypeKeys_def)
  define t1 where
    "t1 = newTree\<lparr>registry := AList.update ''a'' (factoryRecord f False) (registry newTree)\<rparr>"
  have b: "\<not> isRegistered t1 ''b''"
    by (simp add: t1_def isRegistered_def getProp_def newTree_def objectPrototypeKeys_def)
  define t2 where
    "t2 = t1\<lparr>registry := AList.update ''b'' (factoryRecord g False) (registry t1)\<rparr>"
  have m: "getProp (registry t2) ''agg'' = Missing"
    by (simp add: t2_def t1_def getProp_def newTree_def objectPrototypeKeys_def)
  have keys: "map fst (registry t2) = [''a'', ''b'']"
    by (simp add: t2_def t1_def newTree_def)
  show ?thesis
    using keys m
    by (simp add: fresh [OF a] fresh [OF b] t1_def [symmetric] t2_def [symmetric]
        isRegistered_def resolve_def priv_resolve_Missing)
qed

section \<open>Teardown\<close>

text \<open>
  C6, as the code has it. Let the non-empty key \<open>k\<close> have a cache entry, and let \<open>d\<close>
  be a registered key, not the empty string, that lists \<open>k\<close> among its dependencies and
  has a cache entry too. Let \<open>R\<close> hold \<open>k\<close> and what a cascade from \<open>k\<close> reaches, and
  let the state be safe for that cascade (\<open>cascadeSafe rank R t\<close>); other cache entries
  are free. Then \<open>destroy(k)\<close>, with fuel \<open>rank k + 2\<close> or more, returns without error;
  the registry is as before; neither \<open>k\<close> nor \<open>d\<close> has a cache entry any more; the
  entry of \<open>d\<close> was removed before that of \<open>k\<close>, whose removal is the last event.
  A later \<open>resolve\<close> of either key, when it is registered as a factory, does not find
  a cache entry and takes the path of construction: it resolves the declared
  dependencies again; if one of them throws, so does \<open>resolve\<close>, with that error; if
  they resolve, the factory is called again, on a new context; and a \<open>resolve\<close> that
  returns a value has ended with a new call of the key's factory.
\<close>

theorem destroy_cascades:
  assumes safe: "cascadeSafe rank R t"
    and K: "k \<noteq> []" "k \<in> set R" "map_of (resolved t) k = Some ek"
    and D: "d \<noteq> []" "map_of (registry t) d = Some cd" "k \<in> set (dependencies cd)"
      "map_of (resolved t) d = Some ed"
    and fuel: "rank k + 2 \<le> n"
  shows "\<exists>t' pre mid.
      destroy n t (Some k) = Some (Inr (), t')
    \<and> registry t' = registry t
    \<and> map_of (resolved t') k = None \<and> map_of (resolved t') d = None
    \<and> trace t' = trace t @ pre @ [Evict d] @ mid @ [Evict k]
    \<and> (\<forall>x config. (x = k \<or> x = d) \<and> map_of (registry t) x = Some config
          \<and> \<not> isConstant config
        \<longrightarrow> resolve t' x =
              (case resolveEach (registry t) [x] (dependencies config) [] t' of
                 (Inl err, s1) \<Rightarrow> (Inl err, s1)
               | (Inr resolvedDeps, s1) \<Rightarrow>
                   (case rvalue config of
                      Plain v \<Rightarrow> (Inl TypeError, s1)
                    | Callable f \<Rightarrow>
                        (case invokeFactory x f resolvedDeps s1 of
                           ((c, v), s2) \<Rightarrow> finish x (isSingleton config) c v s2)))
            \<and> (\<forall>v t''. resolve t' x = (Inr v, t'')
                 \<longrightarrow> (\<exists>c args tr. trace t'' = trace t' @ tr @ [Invoke x c args]
                        \<and> nextRef t' \<le> c)))"
proof -
  let ?ds = "dependsOnKey (registry t) k"
  from K(3) have memk: "(k, ek) \<in> set (resolved t)" by (rule map_of_SomeD)
  from D(4) have cd: "d \<in> fst ` set (resolved t)"
    by (auto dest: map_of_SomeD intro: rev_image_eqI)
  from fuel obtain m where n: "n = Suc m" and m: "rank k + 1 \<le> m"
    by (cases n) auto
  have dmem: "d \<in> set ?ds"
    using D by (auto simp: dependsOnKey_iff)
  have ord: "x \<notin> set objectPrototypeKeys" if "x \<in> set ?ds" for x
    using cascadeSafe_dependent [OF safe memk K(2) that] by simp
  have rk: "x \<in> set R \<and> rank x + 2 \<le> m" if "x \<in> set ?ds" "x \<in> fst ` set (resolved t)" for x
    using cascadeSafe_dependent [OF safe memk K(2) that(1)] that(2) m by simp
  from m have "0 < m" by simp
  from cascade_total(2) [OF safe this ord rk]
  obtain t1 where de: "destroyEach m ?ds t = Some (Inr (), t1)" by blast
  from destroy_shrinks(2) [OF de] obtain evs where
    reg1: "registry t1 = registry t" and
    tr1: "trace t1 = trace t @ evs" and
    ev: "\<And>x. x \<in> fst ` set (resolved t) \<Longrightarrow> x \<notin> fst ` set (resolved t1) \<Longrightarrow> Evict x \<in> set evs"
    by (auto simp: shrinks_def)
  from destroyEach_removes [OF de dmem] have dgone: "d \<notin> fst ` set (resolved t1)" .
  from ev [OF cd dgone] obtain pre post where evs: "evs = pre @ Evict d # post"
    by (auto dest: split_list)
  define t' where "t' = t1\<lparr>resolved := AList.delete k (resolved t1),
      trace := trace t1 @ [Emit k, Evict k]\<rparr>"
  from cascadeSafe_emitter [OF safe memk K(2)] K(3) de
  have run: "priv_destroy (Suc m) k t = Some (Inr (), t')"
    by (simp add: getProp_Own_iff [THEN iffD2] t'_def)
  have 1: "destroy n t (Some k) = Some (Inr (), t')"
    using run K(1) n by (simp add: destroy_def)
  have 2: "registry t' = registry t" by (simp add: t'_def reg1)
  have 3: "map_of (resolved t') k = None"
    by (simp add: t'_def delete_conv')
  have 4: "map_of (resolved t') d = None"
    using dgone dom_delete_subset [of k "resolved t1"]
    by (auto simp: t'_def map_of_eq_None_iff)
  have 5: "trace t' = trace t @ pre @ [Evict d] @ (post @ [Emit k]) @ [Evict k]"
    by (simp add: t'_def tr1 evs)
  have 6: "resolve t' x =
              (case resolveEach (registry t) [x] (dependencies config) [] t' of
                 (Inl err, s1) \<Rightarrow> (Inl err, s1)
               | (Inr resolvedDeps, s1) \<Rightarrow>
                   (case rvalue config of
                      Plain v \<Rightarrow> (Inl TypeError, s1)
                    | Callable f \<Rightarrow>
                        (case invokeFactory x f resolvedDeps s1 of
                           ((c, v), s2) \<Rightarrow> finish x (isSingleton config) c v s2)))
            \<and> (\<forall>v t''. resolve t' x = (Inr v, t'')
                 \<longrightarrow> (\<exists>c args tr. trace t'' = trace t' @ tr @ [Invoke x c args]
                        \<and> nextRef t' \<le> c))"
    if "x = k \<or> x = d" "map_of (registry t) x = Some config" "\<not> isConstant config"
    for x config
  proof -
    from that(1) 3 4 have none: "map_of (resolved t') x = None" by auto
    from that(2) 2 have reg': "map_of (registry t') x = Some config" by simp
    from priv_resolve_uncached_factory [OF reg' that(3) none] 2
    have a: "resolve t' x =
              (case resolveEach (registry t) [x] (dependencies config) [] t' of
                 (Inl err, s1) \<Rightarrow> (Inl err, s1)
               | (Inr resolvedDeps, s1) \<Rightarrow>
                   (case rvalue config of
                      Plain v \<Rightarrow> (Inl TypeError, s1)
                    | Callable f \<Rightarrow>
                        (case invokeFactory x f resolvedDeps s1 of
                           ((c, v), s2) \<Rightarrow> finish x (isSingleton config) c v s2)))"
      by simp
    have b: "\<exists>c args tr. trace t'' = trace t' @ tr @ [Invoke x c args] \<and> nextRef t' \<le> c"
      if "resolve t' x = (Inr v, t'')" for v t''
      using priv_resolve_constructs [OF reg' \<open>\<not> isConstant config\<close> none
          that [unfolded resolve_def]] .
    from a b show ?thesis by blast
  qed
  from 1 2 3 4 5 6 show ?thesis by blast
qed

text \<open>\<open>destroy('service')\<close> on the tree that also holds the cached plugin: the client
  goes first, the plugin, which is no emitter, keeps its entry, and \<open>resolve('client')\<close>
  then builds the service and the client anew.\<close>

theorem destroy_cascades_witness:
  "cascadeSafe serviceRank [''service'', ''client''] mixedTree
   \<and> map fst (resolved mixedTree) = [''service'', ''client'', ''errorPlugin'']
   \<and> destroy 3 mixedTree (Some ''service'') = Some (Inr (), mixedCleared)
   \<and> registry mixedCleared = registry mixedTree
   \<and> map fst (resolved mixedCleared) = [''errorPlugin'']
   \<and> (\<exists>pre mid. trace mixedCleared =
         trace mixedTree @ pre @ [Evict ''client''] @ mid @ [Evict ''service''])
   \<and> resolve mixedCleared ''client'' =
       (Inr (Ref 4),
        mixedCleared\<lparr>resolved :=
            [(''errorPlugin'',
              \<lparr>ctx = \<lparr>cref = 2, hasEmit = False, hasRemoveAllListeners = False\<rparr>,
               cvalue = Ref 2\<rparr>),
             (''service'',
              \<lparr>ctx = \<lparr>cref = 3, hasEmit = True, hasRemoveAllListeners = True\<rparr>,
               cvalue = Ref 3\<rparr>),
             (''client'',
              \<lparr>ctx = \<lparr>cref = 4, hasEmit = True, hasRemoveAllListeners = True\<rparr>,
               cvalue = Ref 4\<rparr>)],
          nextRef := 5,
          trace := trace mixedCleared
            @ [Invoke ''service'' 3 [], Invoke ''client'' 4 [Ref 3]]\<rparr>)"
proof -
  have K: "''service'' \<noteq> []" "''service'' \<in> set [''service'', ''client'']"
    "map_of (resolved mixedTree) ''service'' =
       Some \<lparr>ctx = \<lparr>cref = 0, hasEmit = True, hasRemoveAllListeners = True\<rparr>, cvalue = Ref 0\<rparr>"
    by (simp_all add: mixedTree_def)
  have D: "''client'' \<noteq> []"
    "map_of (registry mixedTree) ''client'' = Some (factoryRecord Client True)"
    "''service'' \<in> set (dependencies (factoryRecord Client True))"
    "map_of (resolved mixedTree) ''client'' =
       Some \<lparr>ctx = \<lparr>cref = 1, hasEmit = True, hasRemoveAllListeners = True\<rparr>, cvalue = Ref 1\<rparr>"
    by (simp_all add: mixedTree_def example_defs Client_def)
  have fuel: "serviceRank ''service'' + 2 \<le> 3"
    by (simp add: serviceRank_def)
  have run: "destroy 3 mixedTree (Some ''service'') = Some (Inr (), mixedCleared)"
    by (simp add: numeral_3_eq_3 mixedTree_def mixedCleared_def destroy_defs example_defs
        Service_def Client_def TestPlugin_def)
  have again: "resolve mixedCleared ''client'' =
       (Inr (Ref 4),
        mixedCleared\<lparr>resolved :=
            [(''errorPlugin'',
              \<lparr>ctx = \<lparr>cref = 2, hasEmit = False, hasRemoveAllListeners = False\<rparr>,
               cvalue = Ref 2\<rparr>),
             (''service'',
              \<lparr>ctx = \<lparr>cref = 3, hasEmit = True, hasRemoveAllListeners = True\<rparr>,
               cvalue = Ref 3\<rparr>),
             (''client'',
              \<lparr>ctx = \<lparr>cref = 4, hasEmit = True, hasRemoveAllListeners = True\<rparr>,
               cvalue = Ref 4\<rparr>)],
          nextRef := 5,
          trace := trace mixedCleared
            @ [Invoke ''service'' 3 [], Invoke ''client'' 4 [Ref 3]]\<rparr>)"
    by (simp add: eval_defs mixedTree_def mixedCleared_def example_defs
        Service_def Client_def TestPlugin_def)
  have keys: "map fst (resolved mixedTree) = [''service'', ''client'', ''errorPlugin'']"
    "map fst (resolved mixedCleared) = [''errorPlugin'']"
    by (simp_all add: mixedTree_def mixedCleared_def)
  from destroy_cascades [OF mixedTree_safe K D fuel] run mixedTree_safe again keys
  show ?thesis by auto
qed

text \<open>
  C6 as stated fails when a context is no event emitter. With the two classes of the
  test registered as singletons and \<open>errorPlugin\<close> resolved, both keys are cached and
  \<open>errorPlugin\<close> depends on \<open>errorParser\<close>. \<open>destroy('errorParser')\<close> reaches
  \<open>context.emit\<close> for the plugin, throws a \<open>TypeError\<close>, and both entries stay.
  More fuel does not change a result that is not \<open>None\<close>.

  Where \<open>destroy\<close> goes through, a later resolution need not rebuild anything. In
  \<open>staleDepTree\<close> the constant \<open>y\<close>, which the cached service was built from, has
  been registered again as a factory that needs the unregistered \<open>z\<close> (the overwrite
  tears nothing down, \<open>y\<close> having no cache entry). \<open>destroy('service')\<close> removes the
  entries of the client and of the service, and after it \<open>resolve\<close> of either key
  throws the unregistered-dependency error for \<open>z\<close>.

  A dependent registered under the empty string is dropped from the list of dependents
  (\<open>filter(depName => !!depName)\<close>): in \<open>blankClientTree\<close>, \<open>destroy('service')\<close>
  removes the entry of the service and leaves that of its dependent.
\<close>

theorem destroy_cascade_throws:
  "singleton_reg 0 newTree ''errorPlugin'' (Callable TestPlugin) NoOpts =
     Some (Inr (), newTree\<lparr>registry := [(''errorPlugin'', factoryRecord TestPlugin True)]\<rparr>)
   \<and> singleton_reg 0 (newTree\<lparr>registry := [(''errorPlugin'', factoryRecord TestPlugin True)]\<rparr>)
        ''errorParser'' (Callable DefaultErrorParser) NoOpts =
     Some (Inr (), newTree\<lparr>registry := registry pluginTree\<rparr>)
   \<and> resolve (newTree\<lparr>registry := registry pluginTree\<rparr>) ''errorPlugin'' =
       (Inr (Ref 1), pluginTree)
   \<and> map (\<lambda>(k, config). (k, dependencies config)) (registry pluginTree) =
       [(''errorPlugin'', [''errorParser'']), (''errorParser'', [])]
   \<and> destroy 3 pluginTree (Some ''errorParser'') = Some (Inl TypeError, pluginTree)
   \<and> map fst (resolved pluginTree) = [''errorParser'', ''errorPlugin'']
   \<and> constant_reg 0 newTree ''y'' (Plain (Num 0)) NoOpts =
       Some (Inr (), newTree\<lparr>registry := [(''y'', constantRecord (Num 0) False)]\<rparr>)
   \<and> singleton_reg 0 (newTree\<lparr>registry := [(''y'', constantRecord (Num 0) False)]\<rparr>)
        ''service'' (Callable ServiceY) NoOpts =
       Some (Inr (), newTree\<lparr>registry := [(''y'', constantRecord (Num 0) False),
                                           (''service'', factoryRecord ServiceY True)]\<rparr>)
   \<and> singleton_reg 0 (newTree\<lparr>registry := [(''y'', constantRecord (Num 0) False),
                                            (''service'', factoryRecord ServiceY True)]\<rparr>)
        ''client'' (Callable Client) NoOpts =
       Some (Inr (), newTree\<lparr>registry := [(''y'', constantRecord (Num 0) False),
                                           (''service'', factoryRecord ServiceY True),
                                           (''client'', factoryRecord Client True)]\<rparr>)
   \<and> resolve (newTree\<lparr>registry := [(''y'', constantRecord (Num 0) False),
                                    (''service'', factoryRecord ServiceY True),
                                    (''client'', factoryRecord Client True)]\<rparr>) ''client'' =
       (Inr (Ref 1),
        staleDepTree\<lparr>registry := [(''y'', constantRecord (Num 0) False),
                                   (''service'', factoryRecord ServiceY True),
                                   (''client'', factoryRecord Client True)]\<rparr>)
   \<and> register 1 (staleDepTree\<lparr>registry := [(''y'', constantRecord (Num 0) False),
                                           (''service'', factoryRecord ServiceY True),
                                           (''client'', factoryRecord Client True)]\<rparr>)
        ''y'' (Callable NeedsZ) NoOpts = Some (Inr (), staleDepTree)
   \<and> destroy 3 staleDepTree (Some ''service'') = Some (Inr (), staleDepCleared)
   \<and> resolve staleDepCleared ''service'' =
       (Inl (unregisteredDependency ''z'' [''service'', ''y'', ''z'']), staleDepCleared)
   \<and> resolve staleDepCleared ''client'' =
       (Inl (unregisteredDependency ''z'' [''client'', ''service'', ''y'', ''z'']),
        staleDepCleared)
   \<and> singleton_reg 0 newTree ''service'' (Callable Service) NoOpts =
       Some (Inr (), newTree\<lparr>registry := [(''service'', factoryRecord Service True)]\<rparr>)
   \<and> singleton_reg 0 (newTree\<lparr>registry := [(''service'', factoryRecord Service True)]\<rparr>)
        [] (Callable Client) NoOpts =
       Some (Inr (), newTree\<lparr>registry := registry blankClientTree\<rparr>)
   \<and> resolve (newTree\<lparr>registry := registry blankClientTree\<rparr>) [] =
       (Inr (Ref 1), blankClientTree)
   \<and> map fst (resolved blankClientTree) = [''service'', []]
   \<and> destroy 3 blankClientTree (Some ''service'') =
       Some (Inr (), blankClientTree\<lparr>resolved :=
          [([], \<lparr>ctx = \<lparr>cref = 1, hasEmit = True, hasRemoveAllListeners = True\<rparr>,
             cvalue = Ref 1\<rparr>)],
          trace := trace blankClientTree @ [Emit ''service'', Evict ''service'']\<rparr>)"
  by (simp add: numeral_3_eq_3 register_defs eval_defs destroy_defs newTree_def pluginTree_def
      staleDepTree_def staleDepCleared_def blankClientTree_def example_defs
      TestPlugin_def DefaultErrorParser_def ServiceY_def Service_def Client_def NeedsZ_def)

text \<open>
  C7, as the code has it. \<open>destroy(k)\<close> for a non-empty key that is not a name
  inherited from \<open>Object.prototype\<close> and has no cache entry returns at once, without
  error, with the state as it was. In a state that is safe for teardown, \<open>destroy\<close> with
  no key, with the empty string or with any key that is not an inherited name, given fuel
  \<open>fuelFor rank t\<close> or more, returns without error; the registry is as before and the
  cache has only lost entries.
\<close>

theorem destroy_completes:
  "(k \<noteq> [] \<and> k \<notin> set objectPrototypeKeys \<and> map_of (resolved t) k = None
      \<longrightarrow> destroy (Suc n) t (Some k) = Some (Inr (), t))
   \<and> (teardownSafe rank t \<and> fuelFor rank t \<le> m
       \<and> (\<forall>x. key = Some x \<longrightarrow> x \<notin> set objectPrototypeKeys)
      \<longrightarrow> (\<exists>t'. destroy m t key = Some (Inr (), t') \<and> registry t' = registry t
                \<and> set (resolved t') \<subseteq> set (resolved t)))"
proof (intro conjI impI)
  assume "k \<noteq> [] \<and> k \<notin> set objectPrototypeKeys \<and> map_of (resolved t) k = None"
  then show "destroy (Suc n) t (Some k) = Some (Inr (), t)"
    by (simp add: destroy_def getProp_Missing_iff [THEN iffD2])
next
  assume a: "teardownSafe rank t \<and> fuelFor rank t \<le> m
       \<and> (\<forall>x. key = Some x \<longrightarrow> x \<notin> set objectPrototypeKeys)"
  then have safe: "teardownSafe rank t" and fuel: "fuelFor rank t \<le> m" by simp_all
  from fuel have pos: "0 < m" by (simp add: fuelFor_def)
  have rk: "rank x + 2 \<le> m" if "x \<in> fst ` set (resolved t)" for x
    using fuelFor_bound [OF that, of rank] fuel by simp
  have all: "\<exists>t'. destroyEach m (objectKeys (registry t)) t = Some (Inr (), t')"
    using teardownSafe_ordinary [OF safe] rk
    by (intro destroy_total(2) [OF safe pos]) (auto simp: set_objectKeys)
  have "\<exists>t'. destroy m t key = Some (Inr (), t')"
  proof (cases key)
    case None
    with all show ?thesis by (simp add: destroy_def)
  next
    case (Some x)
    show ?thesis
    proof (cases "x = []")
      case True
      with Some all show ?thesis by (simp add: destroy_def)
    next
      case False
      from a Some have "x \<notin> set objectPrototypeKeys" by simp
      from destroy_total(1) [OF safe this pos rk] Some False show ?thesis
        by (simp add: destroy_def)
    qed
  qed
  then obtain t' where ok: "destroy m t key = Some (Inr (), t')" by blast
  then have "shrinks t t'"
    by (auto simp: destroy_def split: option.splits if_splits
        dest: destroy_shrinks(1) destroy_shrinks(2))
  with ok show "\<exists>t'. destroy m t key = Some (Inr (), t') \<and> registry t' = registry t
                \<and> set (resolved t') \<subseteq> set (resolved t)"
    by (auto simp: shrinks_def)
qed

text \<open>The parser before it is resolved, and the whole tree of emitters.\<close>

theorem destroy_completes_witness:
  "map_of (resolved testTree) ''errorParser'' = None
   \<and> destroy 1 testTree (Some ''errorParser'') = Some (Inr (), testTree)
   \<and> teardownSafe serviceRank serviceTree
   \<and> (\<exists>t'. destroy 3 serviceTree None = Some (Inr (), t')
          \<and> registry t' = registry serviceTree
          \<and> set (resolved t') \<subseteq> set (resolved serviceTree))"
proof -
  have none: "''errorParser'' \<noteq> [] \<and> ''errorParser'' \<notin> set objectPrototypeKeys
      \<and> map_of (resolved testTree) ''errorParser'' = None"
    by (simp add: testTree_def objectPrototypeKeys_def)
  from destroy_completes [of "''errorParser''" testTree 0, THEN conjunct1] none
  have noop: "destroy 1 testTree (Some ''errorParser'') = Some (Inr (), testTree)"
    by simp
  have pre: "teardownSafe serviceRank serviceTree \<and> fuelFor serviceRank serviceTree \<le> 3
      \<and> (\<forall>x. None = Some x \<longrightarrow> x \<notin> set objectPrototypeKeys)"
    by (simp add: serviceTree_safe serviceTree_fuel)
  from destroy_completes [of _ serviceTree _ serviceRank 3 None, THEN conjunct2] pre
  have "\<exists>t'. destroy 3 serviceTree None = Some (Inr (), t')
          \<and> registry t' = registry serviceTree
          \<and> set (resolved t') \<subseteq> set (resolved serviceTree)"
    by blast
  with none noop serviceTree_safe show ?thesis by simp
qed

text \<open>
  C7 as stated fails: with the test's \<open>TestPlugin\<close> registered as a singleton and
  resolved, its cache entry holds a context made from \<open>TestPlugin.prototype\<close>, which has
  no \<open>emit\<close>, and \<open>destroy('errorPlugin')\<close> throws a \<open>TypeError\<close>; the entry stays.
\<close>

theorem destroy_throws:
  "constant_reg 0 newTree ''errorParser'' (Plain (Num 0)) NoOpts =
     Some (Inr (), newTree\<lparr>registry := [(''errorParser'', constantRecord (Num 0) False)]\<rparr>)
   \<and> singleton_reg 0 (newTree\<lparr>registry := [(''errorParser'', constantRecord (Num 0) False)]\<rparr>)
        ''errorPlugin'' (Callable TestPlugin) NoOpts =
     Some (Inr (), newTree\<lparr>registry := registry soloTree\<rparr>)
   \<and> resolve (newTree\<lparr>registry := registry soloTree\<rparr>) ''errorPlugin'' = (Inr (Ref 0), soloTree)
   \<and> map fst (resolved soloTree) = [''errorPlugin'']
   \<and> destroy 1 soloTree (Some ''errorPlugin'') = Some (Inl TypeError, soloTree)"
  by (simp add: register_defs eval_defs destroy_defs newTree_def soloTree_def example_defs
      TestPlugin_def)

text \<open>
  Why the cached keys must not depend on each other in a circle: \<open>loopTree\<close> is built
  by calls of the interface (the second registration of \<open>A\<close> finds \<open>A\<close> uncached, so
  its \<open>destroy\<close> leaves the entry of \<open>B\<close> alone), and on it \<open>destroy('A')\<close> does not
  return, whatever the fuel: \<open>_destroy\<close> of \<open>A\<close> calls that of \<open>B\<close>, which calls that
  of \<open>A\<close>, while both entries are still there.
\<close>

lemma loopTree_reached:
  "register 0 newTree ''A'' (Callable DefaultErrorParser) NoOpts =
     Some (Inr (), newTree\<lparr>registry := [(''A'', factoryRecord DefaultErrorParser False)]\<rparr>)"
  "singleton_reg 0 (newTree\<lparr>registry := [(''A'', factoryRecord DefaultErrorParser False)]\<rparr>)
     ''B'' (Callable NeedsA) NoOpts =
     Some (Inr (), newTree\<lparr>registry := [(''A'', factoryRecord DefaultErrorParser False),
                                         (''B'', factoryRecord NeedsA True)]\<rparr>)"
  "resolve (newTree\<lparr>registry := [(''A'', factoryRecord DefaultErrorParser False),
                                  (''B'', factoryRecord NeedsA True)]\<rparr>) ''B'' =
     (Inr (Ref 1),
      loopTree0\<lparr>registry := [(''A'', factoryRecord DefaultErrorParser False),
                              (''B'', factoryRecord NeedsA True)]\<rparr>)"
  "singleton_reg 1
     (loopTree0\<lparr>registry := [(''A'', factoryRecord DefaultErrorParser False),
                              (''B'', factoryRecord NeedsA True)]\<rparr>)
     ''A'' (Callable NeedsB) NoOpts = Some (Inr (), loopTree0)"
  "resolve loopTree0 ''A'' = (Inr (Ref 2), loopTree)"
  by (simp_all add: register_defs eval_defs destroy_defs newTree_def loopTree_def loopTree0_def
      example_defs DefaultErrorParser_def NeedsA_def NeedsB_def)

lemma loopTree_dependents:
  "dependsOnKey (registry loopTree) ''A'' = [''B'']"
  "dependsOnKey (registry loopTree) ''B'' = [''A'']"
  "getProp (resolved loopTree) ''A'' =
     Own \<lparr>ctx = \<lparr>cref = 2, hasEmit = False, hasRemoveAllListeners = False\<rparr>, cvalue = Ref 2\<rparr>"
  "getProp (resolved loopTree) ''B'' =
     Own \<lparr>ctx = \<lparr>cref = 1, hasEmit = False, hasRemoveAllListeners = False\<rparr>, cvalue = Ref 1\<rparr>"
  by (simp_all add: loopTree_def loopTree0_def destroy_defs example_defs NeedsA_def NeedsB_def)

lemma destroy_cycle_never_returns:
  "destroy n loopTree (Some ''A'') = None"
proof -
  have "priv_destroy n ''A'' loopTree = None \<and> priv_destroy n ''B'' loopTree = None"
  proof (induction n)
    case 0
    show ?case by simp
  next
    case (Suc n)
    then show ?case by (simp add: loopTree_dependents)
  qed
  then show ?thesis by (simp add: destroy_def)
qed

text \<open>
  C10, as the code has it. \<open>destroy("")\<close> is \<open>destroy()\<close>: \<open>_destroy\<close> on every key of
  the registry, in \<open>Object.keys\<close> order. In a state that is safe for teardown, with fuel
  \<open>fuelFor rank t\<close> or more, it returns without error and no registered key has a cache
  entry afterwards; and registering the empty string again, when it is registered and the
  options are accepted, ends (with or without error) in a state in which no registered
  key has a cache entry.
\<close>

theorem destroy_empty_key:
  "destroy n t (Some []) = destroy n t None
   \<and> destroy n t None = destroyEach n (objectKeys (registry t)) t
   \<and> (teardownSafe rank t \<and> fuelFor rank t \<le> n
      \<longrightarrow> (\<exists>t'. destroy n t (Some []) = Some (Inr (), t') \<and> registry t' = registry t
               \<and> (\<forall>k \<in> fst ` set (registry t). map_of (resolved t') k = None)))
   \<and> (teardownSafe rank t \<and> fuelFor rank t \<le> n \<and> isRegistered t []
       \<and> normalizeOptions a = Inr opts
      \<longrightarrow> (\<exists>r t'. register n t [] v a = Some (r, t')
               \<and> (\<forall>k \<in> fst ` set (registry t). map_of (resolved t') k = None)))"
proof -
  have clear: "\<exists>t'. destroy n t (Some []) = Some (Inr (), t') \<and> registry t' = registry t
               \<and> (\<forall>k \<in> fst ` set (registry t). map_of (resolved t') k = None)"
    if safe: "teardownSafe rank t" and fuel: "fuelFor rank t \<le> n"
  proof -
    from fuel have pos: "0 < n" by (simp add: fuelFor_def)
    have rk: "rank x + 2 \<le> n" if "x \<in> fst ` set (resolved t)" for x
      using fuelFor_bound [OF that, of rank] fuel by simp
    have "\<exists>t'. destroyEach n (objectKeys (registry t)) t = Some (Inr (), t')"
      using teardownSafe_ordinary [OF safe] rk
      by (intro destroy_total(2) [OF safe pos]) (auto simp: set_objectKeys)
    then obtain t' where de: "destroyEach n (objectKeys (registry t)) t = Some (Inr (), t')"
      by blast
    from destroy_shrinks(2) [OF de] have "registry t' = registry t" by (simp add: shrinks_def)
    moreover have "map_of (resolved t') k = None" if "k \<in> fst ` set (registry t)" for k
      using destroyEach_removes [OF de, of k] that
      by (simp add: set_objectKeys map_of_eq_None_iff)
    ultimately show ?thesis using de by (auto simp: destroy_def)
  qed
  have reg: "\<exists>r t'. register n t [] v a = Some (r, t')
               \<and> (\<forall>k \<in> fst ` set (registry t). map_of (resolved t') k = None)"
    if safe: "teardownSafe rank t" and fuel: "fuelFor rank t \<le> n"
      and isreg: "isRegistered t []" and opts: "normalizeOptions a = Inr opts"
  proof -
    from clear [OF safe fuel] obtain t1 where
      d: "destroy n t (Some []) = Some (Inr (), t1)" and
      c: "\<forall>k \<in> fst ` set (registry t). map_of (resolved t1) k = None"
      by blast
    from isreg opts d c show ?thesis
      by (auto simp: register_def Let_def split: sum.splits payload.splits)
  qed
  from clear reg show ?thesis by (simp add: destroy_def)
qed

text \<open>The tree of emitters with the empty string registered: \<open>destroy("")\<close> and a new
  \<open>register("", Service)\<close> both clear \<open>service\<close> and \<open>client\<close>.\<close>

theorem destroy_empty_key_witness:
  "teardownSafe serviceRank blankServiceTree
   \<and> isRegistered blankServiceTree []
   \<and> map fst (resolved blankServiceTree) = [''service'', ''client'']
   \<and> destroy 3 blankServiceTree (Some []) = destroy 3 blankServiceTree None
   \<and> (\<exists>t'. destroy 3 blankServiceTree (Some []) = Some (Inr (), t')
          \<and> map_of (resolved t') ''service'' = None \<and> map_of (resolved t') ''client'' = None)
   \<and> (\<exists>r t'. register 3 blankServiceTree [] (Callable Service) NoOpts = Some (r, t')
          \<and> map_of (resolved t') ''service'' = None \<and> map_of (resolved t') ''client'' = None)"
proof -
  have pre: "teardownSafe serviceRank blankServiceTree
      \<and> fuelFor serviceRank blankServiceTree \<le> 3"
    by (simp add: blankServiceTree_safe blankServiceTree_fuel)
  have reg: "isRegistered blankServiceTree []"
    by (simp add: isRegistered_def getProp_def blankServiceTree_def serviceTree_def)
  have opts: "normalizeOptions NoOpts = Inr emptyOptions"
    by (simp add: normalizeOptions_def)
  have keys: "fst ` set (registry blankServiceTree) = {''service'', ''client'', []}"
    by (auto simp: blankServiceTree_def serviceTree_def)
  have cached: "map fst (resolved blankServiceTree) = [''service'', ''client'']"
    by (simp add: blankServiceTree_def serviceTree_def)
  note inst = destroy_empty_key [of 3 blankServiceTree serviceRank NoOpts emptyOptions
      "Callable Service"]
  from inst have 1: "destroy 3 blankServiceTree (Some []) = destroy 3 blankServiceTree None"
    by (rule conjunct1)
  from inst pre have 2: "\<exists>t'. destroy 3 blankServiceTree (Some []) = Some (Inr (), t')
      \<and> registry t' = registry blankServiceTree
      \<and> (\<forall>k \<in> fst ` set (registry blankServiceTree). map_of (resolved t') k = None)"
    by blast
  from inst pre reg opts have 3: "\<exists>r t'. register 3 blankServiceTree [] (Callable Service) NoOpts
        = Some (r, t')
      \<and> (\<forall>k \<in> fst ` set (registry blankServiceTree). map_of (resolved t') k = None)"
    by blast
  from 1 2 3 pre reg cached show ?thesis unfolding keys by auto
qed

text \<open>
  C10 as stated fails when a cached context is no event emitter: on \<open>soloTree\<close>
  after \<open>constant("", 0)\<close>, \<open>destroy("")\<close> throws a \<open>TypeError\<close> at the cached
  plugin and clears nothing, and so does a new \<open>constant("", 1)\<close>.
\<close>

theorem destroy_empty_key_throws:
  "constant_reg 0 soloTree [] (Plain (Num 0)) NoOpts = Some (Inr (), blankTree)
   \<and> map fst (resolved blankTree) = [''errorPlugin'']
   \<and> destroy 2 blankTree (Some []) = Some (Inl TypeError, blankTree)
   \<and> constant_reg 2 blankTree [] (Plain (Num 1)) NoOpts = Some (Inl TypeError, blankTree)"
  by (simp add: numeral_2_eq_2 register_defs destroy_defs blankTree_def soloTree_def
      example_defs
      TestPlugin_def)

section \<open>Registration of a value that is not callable\<close>

text \<open>
  C8, as the code has it. Let the options be accepted (missing, falsy or a plain object)
  and not set \<open>constant\<close>, and let the value not be callable.

  For a key that has no registration record and is not a name inherited from
  \<open>Object.prototype\<close>, \<open>register\<close> throws the error whose message is
  \<open>Cannot register non-function as factory: \<close> followed by the key, and leaves the
  state as it was.

  For a key that has a record (or is an inherited name), \<open>register\<close> runs
  \<open>destroy(key)\<close> first. If that throws, \<open>register\<close> throws the same error; if it
  does not return, neither does \<open>register\<close>; whenever it returns, \<open>register\<close> throws
  the error above, in the state that \<open>destroy\<close> has left. So for a non-empty registered
  key that is not an inherited name and has no cache entry the state is as it was; and
  for a non-empty registered key with a cache entry, in a state that is safe for the
  cascade from it, the error above is thrown, the registry is as before, the cache has
  only lost entries, and the key has no entry any more.

  In every case a call that returns ends in an error, leaves the registry as it was and
  removes at most cache entries.
\<close>

theorem register_nonfunction:
  assumes opts: "normalizeOptions a = Inr opts" "\<not> optConstant opts"
  shows "(map_of (registry t) k = None \<and> k \<notin> set objectPrototypeKeys
            \<longrightarrow> register n t k (Plain x) a = Some (Inl (notAFactory k), t))
    \<and> (map_of (registry t) k \<noteq> None \<or> k \<in> set objectPrototypeKeys
            \<longrightarrow> register n t k (Plain x) a =
                 (case destroy n t (Some k) of
                    None \<Rightarrow> None
                  | Some (Inl err, t1) \<Rightarrow> Some (Inl err, t1)
                  | Some (Inr u, t1) \<Rightarrow> Some (Inl (notAFactory k), t1)))
    \<and> (map_of (registry t) k \<noteq> None \<and> k \<noteq> [] \<and> k \<notin> set objectPrototypeKeys
          \<and> map_of (resolved t) k = None
            \<longrightarrow> register (Suc n) t k (Plain x) a = Some (Inl (notAFactory k), t))
    \<and> (cascadeSafe rank R t \<and> map_of (registry t) k \<noteq> None \<and> k \<noteq> [] \<and> k \<in> set R
          \<and> map_of (resolved t) k \<noteq> None \<and> rank k + 2 \<le> n
            \<longrightarrow> (\<exists>t1. register n t k (Plain x) a = Some (Inl (notAFactory k), t1)
                   \<and> registry t1 = registry t \<and> set (resolved t1) \<subseteq> set (resolved t)
                   \<and> map_of (resolved t1) k = None))
    \<and> (\<forall>r t'. register n t k (Plain x) a = Some (r, t')
          \<longrightarrow> (\<exists>e. r = Inl e) \<and> registry t' = registry t
              \<and> set (resolved t') \<subseteq> set (resolved t))
    \<and> notAFactory k = Error (''Cannot register non-function as factory: '' @ k)"
proof -
  have isreg: "isRegistered t k \<longleftrightarrow> map_of (registry t) k \<noteq> None \<or> k \<in> set objectPrototypeKeys"
    by (auto simp: isRegistered_def getProp_def split: option.splits)
  have 1: "register n t k (Plain x) a = Some (Inl (notAFactory k), t)"
    if "map_of (registry t) k = None \<and> k \<notin> set objectPrototypeKeys"
    using that opts isreg by (simp add: register_def)
  have 2: "register n t k (Plain x) a =
                 (case destroy n t (Some k) of
                    None \<Rightarrow> None
                  | Some (Inl err, t1) \<Rightarrow> Some (Inl err, t1)
                  | Some (Inr u, t1) \<Rightarrow> Some (Inl (notAFactory k), t1))"
    if "map_of (registry t) k \<noteq> None \<or> k \<in> set objectPrototypeKeys"
    using that opts isreg
    by (auto simp: register_def split: option.splits sum.splits)
  have 3: "register (Suc n) t k (Plain x) a = Some (Inl (notAFactory k), t)"
    if h: "map_of (registry t) k \<noteq> None \<and> k \<noteq> [] \<and> k \<notin> set objectPrototypeKeys
          \<and> map_of (resolved t) k = None"
  proof -
    from h have "getProp (resolved t) k = Missing"
      by (simp add: getProp_def)
    with h have "destroy (Suc n) t (Some k) = Some (Inr (), t)"
      by (simp add: destroy_def)
    with 2 [of ] h show ?thesis
      using opts isreg by (simp add: register_def)
  qed
  have 4: "\<exists>t1. register n t k (Plain x) a = Some (Inl (notAFactory k), t1)
                   \<and> registry t1 = registry t \<and> set (resolved t1) \<subseteq> set (resolved t)
                   \<and> map_of (resolved t1) k = None"
    if h: "cascadeSafe rank R t \<and> map_of (registry t) k \<noteq> None \<and> k \<noteq> [] \<and> k \<in> set R
          \<and> map_of (resolved t) k \<noteq> None \<and> rank k + 2 \<le> n"
  proof -
    from h have pos: "0 < n" by simp
    from h have cached: "k \<in> fst ` set (resolved t)"
      by (auto simp: map_of_eq_None_iff)
    from cascade_total(1) [of rank R t n k] h pos cached
    obtain t1 where run: "priv_destroy n k t = Some (Inr (), t1)" by blast
    from destroy_shrinks(1) [OF run] have sh: "shrinks t t1" .
    from destroy_removes [OF run] have gone: "map_of (resolved t1) k = None"
      by (simp add: map_of_eq_None_iff)
    from run h have "destroy n t (Some k) = Some (Inr (), t1)"
      by (simp add: destroy_def)
    with h opts isreg have "register n t k (Plain x) a = Some (Inl (notAFactory k), t1)"
      by (simp add: register_def)
    with sh gone show ?thesis by (auto simp: shrinks_def)
  qed
  have 5: "(\<exists>e. r = Inl e) \<and> registry t' = registry t \<and> set (resolved t') \<subseteq> set (resolved t)"
    if run: "register n t k (Plain x) a = Some (r, t')" for r t'
  proof (cases "isRegistered t k")
    case False
    with run opts show ?thesis by (auto simp: register_def)
  next
    case True
    with run opts obtain rd where d: "destroy n t (Some k) = Some (rd, t')"
      and e: "\<exists>e. r = Inl e"
      by (auto simp: register_def split: option.splits sum.splits)
    from d have "shrinks t t'"
      by (auto simp: destroy_def split: if_splits dest: destroy_shrinks(1) destroy_shrinks(2))
    with e show ?thesis by (simp add: shrinks_def)
  qed
  have 6: "notAFactory k = Error (''Cannot register non-function as factory: '' @ k)"
    by (simp add: notAFactory_def)
  from 1 2 3 4 5 6 show ?thesis by blast
qed

text \<open>The test's tree with the new key \<open>x\<close> and with the registered, not yet resolved
  \<open>errorParser\<close>; and \<open>register('service', 5)\<close> on the tree with the two cached
  emitters and the cached plugin.\<close>

theorem register_nonfunction_witness:
  "map_of (registry testTree) ''x'' = None \<and> ''x'' \<notin> set objectPrototypeKeys
   \<and> register 0 testTree ''x'' (Plain (Num 5)) NoOpts =
       Some (Inl (Error ''Cannot register non-function as factory: x''), testTree)
   \<and> map_of (registry testTree) ''errorParser'' \<noteq> None
   \<and> map_of (resolved testTree) ''errorParser'' = None
   \<and> register 1 testTree ''errorParser'' (Plain (Num 5)) NoOpts =
       Some (Inl (Error ''Cannot register non-function as factory: errorParser''), testTree)
   \<and> cascadeSafe serviceRank [''service'', ''client''] mixedTree
   \<and> map fst (resolved mixedTree) = [''service'', ''client'', ''errorPlugin'']
   \<and> register 3 mixedTree ''service'' (Plain (Num 5)) NoOpts =
       Some (Inl (Error ''Cannot register non-function as factory: service''), mixedCleared)
   \<and> registry mixedCleared = registry mixedTree
   \<and> map fst (resolved mixedCleared) = [''errorPlugin'']"
proof -
  have opts: "normalizeOptions NoOpts = Inr emptyOptions" "\<not> optConstant emptyOptions"
    by (simp_all add: normalizeOptions_def emptyOptions_def)
  have fresh: "map_of (registry testTree) ''x'' = None \<and> ''x'' \<notin> set objectPrototypeKeys"
    by (simp add: testTree_def objectPrototypeKeys_def)
  have uncached: "map_of (registry testTree) ''errorParser'' \<noteq> None \<and> ''errorParser'' \<noteq> []
      \<and> ''errorParser'' \<notin> set objectPrototypeKeys
      \<and> map_of (resolved testTree) ''errorParser'' = None"
    by (simp add: testTree_def objectPrototypeKeys_def)
  have cached0: "map_of (registry mixedTree) ''service'' \<noteq> None \<and> ''service'' \<noteq> []
      \<and> ''service'' \<in> set [''service'', ''client'']
      \<and> map_of (resolved mixedTree) ''service'' \<noteq> None \<and> serviceRank ''service'' + 2 \<le> 3"
    by (simp add: mixedTree_def serviceRank_def)
  from mixedTree_safe cached0
  have cached: "cascadeSafe serviceRank [''service'', ''client''] mixedTree
      \<and> map_of (registry mixedTree) ''service'' \<noteq> None \<and> ''service'' \<noteq> []
      \<and> ''service'' \<in> set [''service'', ''client'']
      \<and> map_of (resolved mixedTree) ''service'' \<noteq> None \<and> serviceRank ''service'' + 2 \<le> 3"
    by (rule conjI)
  have run: "destroy 3 mixedTree (Some ''service'') = Some (Inr (), mixedCleared)"
    by (simp add: numeral_3_eq_3 mixedTree_def mixedCleared_def destroy_defs example_defs
        Service_def Client_def TestPlugin_def)
  have keys: "map fst (resolved mixedTree) = [''service'', ''client'', ''errorPlugin'']"
    "map fst (resolved mixedCleared) = [''errorPlugin'']"
    "registry mixedCleared = registry mixedTree"
    by (simp_all add: mixedTree_def mixedCleared_def)
  have msg: "notAFactory k = Error (''Cannot register non-function as factory: '' @ k)" for k
    by (simp add: notAFactory_def)
  note a = register_nonfunction [OF opts, of testTree "''x''" 0 "Num 5" serviceRank "[]"]
  note b = register_nonfunction [OF opts, of testTree "''errorParser''" 0 "Num 5" serviceRank "[]"]
  note c = register_nonfunction [OF opts, of mixedTree "''service''" 3 "Num 5" serviceRank
      "[''service'', ''client'']"]
  from a [THEN conjunct1, rule_format, OF fresh]
  have 1: "register 0 testTree ''x'' (Plain (Num 5)) NoOpts =
       Some (Inl (Error ''Cannot register non-function as factory: x''), testTree)"
    by (simp add: msg)
  from b [THEN conjunct2, THEN conjunct2, THEN conjunct1, rule_format, OF uncached]
  have 2: "register 1 testTree ''errorParser'' (Plain (Num 5)) NoOpts =
       Some (Inl (Error ''Cannot register non-function as factory: errorParser''), testTree)"
    by (simp add: msg)
  from c [THEN conjunct2, THEN conjunct2, THEN conjunct2, THEN conjunct1, rule_format, OF cached]
  obtain t1 where "register 3 mixedTree ''service'' (Plain (Num 5)) NoOpts =
      Some (Inl (notAFactory ''service''), t1)" by blast
  moreover from c [THEN conjunct2, THEN conjunct1, rule_format, OF disjI1,
      OF cached0 [THEN conjunct1]]
  have "register 3 mixedTree ''service'' (Plain (Num 5)) NoOpts =
      Some (Inl (notAFactory ''service''), mixedCleared)"
    by (simp add: run)
  ultimately have 3: "register 3 mixedTree ''service'' (Plain (Num 5)) NoOpts =
       Some (Inl (Error ''Cannot register non-function as factory: service''), mixedCleared)"
    by (simp add: msg)
  show ?thesis
    apply (intro conjI)
    using fresh apply simp
    using fresh apply simp
    apply (rule 1)
    using uncached apply simp
    using uncached apply simp
    apply (rule 2)
    apply (rule mixedTree_safe)
    apply (rule keys(1))
    apply (rule 3)
    apply (rule keys(3))
    apply (rule keys(2))
    done
qed

text \<open>
  C8 as stated fails for a key that is registered and resolved: \<open>register\<close> calls
  \<open>destroy(key)\<close> before it looks at the value. On the tree of emitters,
  \<open>register('service', 5)\<close> throws the error of the claim, but the cache entries of
  \<open>service\<close> and \<open>client\<close> are gone.

  It fails for a name inherited from \<open>Object.prototype\<close>: on a tree without
  registrations \<open>register('toString', 5)\<close> throws a \<open>TypeError\<close>, from the
  \<open>destroy\<close> that \<open>isRegistered\<close> has let through. And it fails for an options
  argument that is not a plain object, which sets no \<open>constant\<close> either:
  \<open>register('x', 5, 'abc')\<close> throws the error for the options.
\<close>

theorem register_nonfunction_destroys:
  "singleton_reg 0 newTree ''service'' (Callable Service) NoOpts =
     Some (Inr (), newTree\<lparr>registry := [(''service'', factoryRecord Service True)]\<rparr>)
   \<and> singleton_reg 0 (newTree\<lparr>registry := [(''service'', factoryRecord Service True)]\<rparr>)
        ''client'' (Callable Client) NoOpts =
     Some (Inr (), newTree\<lparr>registry := registry serviceTree\<rparr>)
   \<and> resolve (newTree\<lparr>registry := registry serviceTree\<rparr>) ''client'' = (Inr (Ref 1), serviceTree)
   \<and> map fst (resolved serviceTree) = [''service'', ''client'']
   \<and> register 3 serviceTree ''service'' (Plain (Num 5)) NoOpts =
       Some (Inl (notAFactory ''service''), serviceCleared)
   \<and> resolved serviceCleared = []
   \<and> map_of (registry newTree) ''toString'' = None
   \<and> register 1 newTree ''toString'' (Plain (Num 5)) NoOpts = Some (Inl TypeError, newTree)
   \<and> register 0 newTree ''x'' (Plain (Num 5)) (NotPlain (Str ''abc'')) =
       Some (Inl invalidOptions, newTree)"
  by (simp add: numeral_3_eq_3 register_defs eval_defs destroy_defs newTree_def serviceTree_def
      serviceCleared_def example_defs
      Service_def Client_def)


section \<open>Registration queries\<close>

text \<open>
  C9. \<open>isRegistered(key)\<close> should be true exactly for the keys that have a registration
  record. On a tree on which nothing was ever registered it answers true for
  \<open>constructor\<close>, because \<open>this._registry[key]\<close> finds \<open>Object.prototype.constructor\<close>;
  the registry itself has no record for that key.
\<close>

theorem isRegistered_inherited_key:
  "isRegistered newTree ''constructor'' \<and> map_of (registry newTree) ''constructor'' = None"
  by (simp add: isRegistered_def getProp_def newTree_def objectPrototypeKeys_def)

text \<open>For a key that is not a name inherited from \<open>Object.prototype\<close> the answer is as
  specified, in every state; \<open>destroy\<close> never changes the registry (see
  \<open>destroy_shrinks\<close>).\<close>

lemma isRegistered_ordinary:
  "k \<notin> set objectPrototypeKeys \<Longrightarrow> isRegistered t k \<longleftrightarrow> map_of (registry t) k \<noteq> None"
  by (simp add: isRegistered_def getProp_def split: option.splits)

end
